theory Spec2Isabelle
  imports Complex_Main "HOL-Library.Word"
begin

section \<open>Python values used by baudrate.py\<close>

text \<open>
  A Python \<open>str\<close> is a sequence of Unicode code points, so \<open>len\<close> counts code points;
  a \<open>bytes\<close> object is a sequence of octets. The two never compare equal in Python 3,
  which is what the constructors of \<open>pyobj\<close> give.
\<close>

type_synonym pystr = "nat list"

datatype pyobj = Str pystr | Bytes "8 word list"

datatype error = IndexError | ValueError | AttributeError | UnicodeDecodeError | UnicodeEncodeError

abbreviation TAB :: nat where "TAB \<equiv> 9"
abbreviation LF :: nat where "LF \<equiv> 10"
abbreviation CR :: nat where "CR \<equiv> 13"
abbreviation SPACE :: nat where "SPACE \<equiv> 32"

definition ustr :: "string \<Rightarrow> pystr" where
  "ustr s = map of_char s"

text \<open>\<open>xs[i]\<close>: a negative index counts from the end, anything out of range raises.\<close>

definition py_getitem :: "'a list \<Rightarrow> int \<Rightarrow> error + 'a" where
  "py_getitem xs i =
     (if 0 \<le> i \<and> i < int (length xs) then Inr (xs ! nat i)
      else if - int (length xs) \<le> i \<and> i < 0 then Inr (xs ! nat (int (length xs) + i))
      else Inl IndexError)"

text \<open>\<open>xs.index(x)\<close>: the first position of \<open>x\<close>, ValueError when it is absent.\<close>

fun py_index :: "'a list \<Rightarrow> 'a \<Rightarrow> error + int" where
  "py_index [] x = Inl ValueError"
| "py_index (y # ys) x =
     (if y = x then Inr 0
      else case py_index ys x of Inl e \<Rightarrow> Inl e | Inr i \<Rightarrow> Inr (i + 1))"

text \<open>The format specification \<open>{x:>{w}}\<close>: pad with blanks on the left up to width \<open>w\<close>.\<close>

definition rjust :: "pystr \<Rightarrow> nat \<Rightarrow> pystr" where
  "rjust x w = replicate (w - length x) SPACE @ x"

section \<open>Class Baudrate: constants\<close>

definition BAUDRATES :: "pystr list" where
  "BAUDRATES = map ustr
     [''921600'', ''576000'', ''460800'', ''230400'', ''115200'', ''76800'', ''57600'',
      ''38400'', ''28800'', ''19200'', ''9600'', ''4800'', ''2400'', ''1800'', ''1200'',
      ''600'', ''300'', ''200'', ''150'', ''134'', ''110'', ''75'', ''50'']"

text \<open>\<open>MAX_LEN = len(max(BAUDRATES, key=len))\<close>: the length of a longest entry.\<close>

definition MAX_LEN :: nat where
  "MAX_LEN = foldr max (map length BAUDRATES) 0"

definition DEFAULT_BAUDRATE :: pystr where
  "DEFAULT_BAUDRATE = ustr ''115200''"

definition MIN_CHAR_COUNT :: int where
  "MIN_CHAR_COUNT = 25"

definition READ_TIMEOUT :: int where
  "READ_TIMEOUT = 5"

text \<open>Set once by \<open>__init__\<close> and never assigned again: \<open>max_display_chars\<close>, \<open>newline_sub\<close>.\<close>

definition max_display_chars :: nat where
  "max_display_chars = 80"

definition newline_sub :: pystr where
  "newline_sub = [CR] @ replicate max_display_chars SPACE @ [CR]"

section \<open>The object state\<close>

text \<open>
  The fields of \<open>self\<close> that the detector, the interpreter and the display use, and three
  channels for what the object does to the outside: the text written to \<open>sys.stderr\<close>,
  the speed last assigned to \<open>self.serial.baudrate\<close>, and the bytes handed to
  \<open>self.serial.write\<close>. \<open>port\<close> and \<open>name\<close> only feed MinicomConfig and are left out.
  \<open>thread\<close> is \<open>None\<close> until a thread running HandleKeypress has been started.
\<close>

datatype pythread = HandleKeypress_thread

record baudrate =
  threshold :: int
  timeout :: int
  auto_detect :: bool
  verbose :: bool
  index :: int
  ctlc :: bool
  thread :: "pythread option"
  buffer :: pystr
  stderr_needs_capping :: bool
  allow_newline :: bool
  passthrough_keys :: bool
  toggle_bauds :: "int \<times> int"
  stderr :: pystr
  serial_baudrate :: "pystr option"
  serial_out :: "8 word list"

definition init ::
  "int \<Rightarrow> int \<Rightarrow> bool \<Rightarrow> bool \<Rightarrow> bool \<Rightarrow> bool \<Rightarrow> pystr \<Rightarrow> error + baudrate" where
  "init thr tmo auto verb anl pk toggle_baud =
     (case py_index BAUDRATES DEFAULT_BAUDRATE of
        Inl e \<Rightarrow> Inl e
      | Inr i \<Rightarrow>
          (case py_index BAUDRATES toggle_baud of
             Inl e \<Rightarrow> Inl e
           | Inr t \<Rightarrow>
               Inr \<lparr>threshold = thr, timeout = tmo, auto_detect = auto, verbose = verb,
                    index = i, ctlc = False, thread = None, buffer = [],
                    stderr_needs_capping = False, allow_newline = anl,
                    passthrough_keys = pk, toggle_bauds = (t, t), stderr = [],
                    serial_baudrate = None, serial_out = []\<rparr>))"

section \<open>The candidate ladder\<close>

definition cap_stderr :: "baudrate \<Rightarrow> baudrate" where
  "cap_stderr s = s\<lparr>stderr := stderr s @ [LF, LF], stderr_needs_capping := False\<rparr>"

definition banner :: "pystr \<Rightarrow> pystr" where
  "banner rate = [CR] @ ustr ''@@@@@@@@@@@@@@@@@@@@@ Baudrate: '' @ rjust rate MAX_LEN
                 @ ustr '' @@@@@@@@@@@@@@@@@@@@@''"

text \<open>
  \<open>self.index = index if index else self.index\<close>: the argument is tested for truth, so
  both \<open>None\<close> and \<open>0\<close> keep the old index. The two flushes of the port have no effect on
  the state modelled here.
\<close>

definition set_baud_from_index :: "baudrate \<Rightarrow> int option \<Rightarrow> error + baudrate" where
  "set_baud_from_index s idx =
     (let s1 = s\<lparr>index := (case idx of None \<Rightarrow> index s
                                      | Some i \<Rightarrow> if i \<noteq> 0 then i else index s)\<rparr>;
          s2 = (if \<not> stderr_needs_capping s1
                then s1\<lparr>stderr := stderr s1 @ [LF, LF], stderr_needs_capping := True\<rparr>
                else s1)
      in case py_getitem BAUDRATES (index s2) of
           Inl e \<Rightarrow> Inl e
         | Inr rate \<Rightarrow>
             Inr (s2\<lparr>stderr := stderr s2 @ banner rate, serial_baudrate := Some rate\<rparr>))"

definition NextBaudrate :: "baudrate \<Rightarrow> int \<Rightarrow> error + baudrate" where
  "NextBaudrate s updn =
     (let i = index s - updn;
          i' = (if i \<ge> int (length BAUDRATES) then 0
                else if i < 0 then int (length BAUDRATES) - 1
                else i)
      in set_baud_from_index (s\<lparr>index := i'\<rparr>) None)"

definition Open :: "baudrate \<Rightarrow> error + baudrate" where
  "Open s = NextBaudrate s 0"

definition toggle_baud :: "baudrate \<Rightarrow> error + baudrate" where
  "toggle_baud s =
     (let prev_index = fst (toggle_bauds s);
          next_index = snd (toggle_bauds s)
      in if index s \<noteq> next_index
         then (case set_baud_from_index s (Some next_index) of
                 Inl e \<Rightarrow> Inl e
               | Inr s' \<Rightarrow> Inr (s'\<lparr>toggle_bauds := (next_index, index s)\<rparr>))
         else Inr (s\<lparr>toggle_bauds := (next_index, prev_index)\<rparr>))"

text \<open>Sequences of ladder operations, run in order; the first exception ends the run.\<close>

datatype ladder_op = Step int | SetIndex "int option" | Toggle

fun apply_op :: "baudrate \<Rightarrow> ladder_op \<Rightarrow> error + baudrate" where
  "apply_op s (Step d) = NextBaudrate s d"
| "apply_op s (SetIndex i) = set_baud_from_index s i"
| "apply_op s Toggle = toggle_baud s"

fun run_ops :: "baudrate \<Rightarrow> ladder_op list \<Rightarrow> error + baudrate" where
  "run_ops s [] = Inr s"
| "run_ops s (x # xs) = (case apply_op s x of Inl e \<Rightarrow> Inl e | Inr s' \<Rightarrow> run_ops s' xs)"

fun valid_op :: "ladder_op \<Rightarrow> bool" where
  "valid_op (Step d) = True"
| "valid_op (SetIndex None) = True"
| "valid_op (SetIndex (Some i)) = (0 \<le> i \<and> i < int (length BAUDRATES))"
| "valid_op Toggle = True"

definition valid_index :: "int \<Rightarrow> bool" where
  "valid_index i = (0 \<le> i \<and> i < int (length BAUDRATES))"

definition ladder_ok :: "baudrate \<Rightarrow> bool" where
  "ladder_ok s = (valid_index (index s) \<and> valid_index (fst (toggle_bauds s))
                  \<and> valid_index (snd (toggle_bauds s)))"

text \<open>
  Two concrete objects: the one \<open>Baudrate()\<close> builds with every default (verbose echo on),
  and the same with \<open>toggle_baud="76800"\<close>.
\<close>

definition state0 :: baudrate where
  "state0 = \<lparr>threshold = 25, timeout = 5, auto_detect = True, verbose = True,
             index = 4, ctlc = False, thread = None, buffer = [],
             stderr_needs_capping = False, allow_newline = False,
             passthrough_keys = False, toggle_bauds = (4, 4), stderr = [],
             serial_baudrate = None, serial_out = []\<rparr>"

definition state_T :: baudrate where
  "state_T = state0\<lparr>toggle_bauds := (5, 5)\<rparr>"

section \<open>Text codecs and string methods of Python\<close>

text \<open>
  \<open>bytes.decode('utf-8')\<close> in strict mode: shortest-form sequences only, no surrogates,
  nothing above U+10FFFF. \<open>utf8_first\<close> reads one code point off the front.
\<close>

definition is_cont :: "8 word \<Rightarrow> bool" where
  "is_cont b = (0x80 \<le> b \<and> b \<le> 0xBF)"

definition utf8_first :: "8 word list \<Rightarrow> (nat \<times> 8 word list) option" where
  "utf8_first bs =
     (case bs of
        [] \<Rightarrow> None
      | b0 # r0 \<Rightarrow>
          if b0 < 0x80 then Some (unat b0, r0)
          else if 0xC2 \<le> b0 \<and> b0 \<le> 0xDF then
            (case r0 of
               b1 # r1 \<Rightarrow>
                 if is_cont b1 then Some (unat b0 mod 32 * 64 + unat b1 mod 64, r1) else None
             | _ \<Rightarrow> None)
          else if 0xE0 \<le> b0 \<and> b0 \<le> 0xEF then
            (case r0 of
               b1 # b2 # r2 \<Rightarrow>
                 if is_cont b1 \<and> is_cont b2
                    \<and> (if b0 = 0xE0 then 0xA0 \<le> b1 else True)
                    \<and> (if b0 = 0xED then b1 \<le> 0x9F else True)
                 then Some (unat b0 mod 16 * 4096 + unat b1 mod 64 * 64 + unat b2 mod 64, r2)
                 else None
             | _ \<Rightarrow> None)
          else if 0xF0 \<le> b0 \<and> b0 \<le> 0xF4 then
            (case r0 of
               b1 # b2 # b3 # r3 \<Rightarrow>
                 if is_cont b1 \<and> is_cont b2 \<and> is_cont b3
                    \<and> (if b0 = 0xF0 then 0x90 \<le> b1 else True)
                    \<and> (if b0 = 0xF4 then b1 \<le> 0x8F else True)
                 then Some (unat b0 mod 8 * 262144 + unat b1 mod 64 * 4096
                            + unat b2 mod 64 * 64 + unat b3 mod 64, r3)
                 else None
             | _ \<Rightarrow> None)
          else None)"

function utf8_decode :: "8 word list \<Rightarrow> pystr option" where
  "utf8_decode bs =
     (if bs = [] then Some []
      else case utf8_first bs of
             None \<Rightarrow> None
           | Some (c, r) \<Rightarrow> map_option ((#) c) (utf8_decode r))"
  by pat_completeness auto

termination
  by (relation "measure length") (auto simp: utf8_first_def split: list.splits if_splits)

declare utf8_decode.simps [simp del]

text \<open>\<open>str.encode('utf-8')\<close>: a surrogate cannot be encoded.\<close>

definition utf8_encode_cp :: "nat \<Rightarrow> error + 8 word list" where
  "utf8_encode_cp c =
     (if c < 0x80 then Inr [of_nat c]
      else if c < 0x800 then Inr [of_nat (0xC0 + c div 64), of_nat (0x80 + c mod 64)]
      else if 0xD800 \<le> c \<and> c \<le> 0xDFFF then Inl UnicodeEncodeError
      else if c < 0x10000 then
        Inr [of_nat (0xE0 + c div 4096), of_nat (0x80 + c div 64 mod 64), of_nat (0x80 + c mod 64)]
      else if c < 0x110000 then
        Inr [of_nat (0xF0 + c div 262144), of_nat (0x80 + c div 4096 mod 64),
             of_nat (0x80 + c div 64 mod 64), of_nat (0x80 + c mod 64)]
      else Inl UnicodeEncodeError)"

fun utf8_encode :: "pystr \<Rightarrow> error + 8 word list" where
  "utf8_encode [] = Inr []"
| "utf8_encode (c # cs) =
     (case utf8_encode_cp c of
        Inl e \<Rightarrow> Inl e
      | Inr bs \<Rightarrow> (case utf8_encode cs of Inl e \<Rightarrow> Inl e | Inr r \<Rightarrow> Inr (bs @ r)))"

text \<open>
  \<open>data.decode('utf-8')\<close> on what the callers pass: \<open>bytes\<close> decode or raise
  UnicodeDecodeError, a \<open>str\<close> has no method \<open>decode\<close>.
\<close>

definition py_decode :: "pyobj \<Rightarrow> error + pystr" where
  "py_decode data =
     (case data of
        Str u \<Rightarrow> Inl AttributeError
      | Bytes bs \<Rightarrow> (case utf8_decode bs of None \<Rightarrow> Inl UnicodeDecodeError | Some u \<Rightarrow> Inr u))"

text \<open>Truth value of a \<open>str\<close> or \<open>bytes\<close> object: non-empty.\<close>

definition py_truthy :: "pyobj \<Rightarrow> bool" where
  "py_truthy x = (case x of Str u \<Rightarrow> u \<noteq> [] | Bytes bs \<Rightarrow> bs \<noteq> [])"

text \<open>\<open>x in xs\<close> for a list of strings: equality of Python values.\<close>

definition py_in :: "pyobj \<Rightarrow> pystr list \<Rightarrow> bool" where
  "py_in x xs = (x \<in> set (map Str xs))"

text \<open>\<open>str.isspace\<close> on one code point, and \<open>str.strip()\<close> without arguments.\<close>

definition py_isspace :: "nat \<Rightarrow> bool" where
  "py_isspace c =
     ((9 \<le> c \<and> c \<le> 13) \<or> (28 \<le> c \<and> c \<le> 32) \<or> c = 133 \<or> c = 160 \<or> c = 5760
      \<or> (8192 \<le> c \<and> c \<le> 8202) \<or> c = 8232 \<or> c = 8233 \<or> c = 8239 \<or> c = 8287
      \<or> c = 12288)"

definition py_strip :: "pystr \<Rightarrow> pystr" where
  "py_strip u = rev (dropWhile py_isspace (rev (dropWhile py_isspace u)))"

text \<open>\<open>u.rfind(c)\<close> for a single character: the last position, or \<open>-1\<close>.\<close>

fun py_rfind :: "pystr \<Rightarrow> nat \<Rightarrow> int" where
  "py_rfind [] c = - 1"
| "py_rfind (x # xs) c =
     (if py_rfind xs c \<ge> 0 then py_rfind xs c + 1 else if x = c then 0 else - 1)"

text \<open>\<open>u[i:]\<close>: a negative start counts from the end, and is clamped.\<close>

definition py_slice_from :: "pystr \<Rightarrow> int \<Rightarrow> pystr" where
  "py_slice_from u i = (if i < 0 then drop (nat (int (length u) + i)) u else drop (nat i) u)"

section \<open>The display buffer\<close>

text \<open>
  Lines 156 to 163 of \<open>_print\<close>, shared by every branch that does not return early: cap
  the banner if needed, write the buffer (after a carriage return when reprinting),
  and empty it when it is full or was written as a fresh line.
\<close>

definition print_flush :: "bool \<Rightarrow> baudrate \<Rightarrow> baudrate" where
  "print_flush reprinting s =
     (let s1 = (if stderr_needs_capping s then cap_stderr s else s);
          prefix = (if reprinting then [CR] else []);
          s2 = s1\<lparr>stderr := stderr s1 @ prefix @ buffer s1\<rparr>
      in if length (buffer s2) \<ge> max_display_chars \<or> prefix = []
         then s2\<lparr>buffer := []\<rparr> else s2)"

text \<open>The body of the \<open>try\<close> block of \<open>_print\<close>.\<close>

definition print_try :: "baudrate \<Rightarrow> pyobj \<Rightarrow> bool \<Rightarrow> error + baudrate" where
  "print_try s data anl =
     (case py_decode data of
        Inl e \<Rightarrow> Inl e
      | Inr buf \<Rightarrow>
          if anl \<or> allow_newline s then
            Inr (print_flush (LF \<notin> set buf) (s\<lparr>buffer := buffer s @ buf\<rparr>))
          else if LF \<in> set buf then
            (if [LF] = buf then Inr (s\<lparr>buffer := newline_sub\<rparr>)
             else let buf' = py_strip buf
                  in if LF \<in> set buf'
                     then Inr (print_flush True
                            (s\<lparr>buffer := newline_sub @ py_slice_from buf' (py_rfind buf' LF + 1)\<rparr>))
                     else Inr (print_flush True (s\<lparr>buffer := buf'\<rparr>)))
          else Inr (print_flush True (s\<lparr>buffer := buffer s @ buf\<rparr>)))"

text \<open>
  \<open>_print\<close>: nothing unless verbose; the bare \<open>except: pass\<close> swallows whatever the body
  raises. The only statement of the body that raises is the decoding, which comes
  first, so the handler is reached with the object unchanged.
\<close>

definition private_print :: "baudrate \<Rightarrow> pyobj \<Rightarrow> bool \<Rightarrow> error + baudrate" where
  "private_print s data anl =
     (if verbose s
      then (case print_try s data anl of Inl e \<Rightarrow> Inr s | Inr s' \<Rightarrow> Inr s')
      else Inr s)"

section \<open>Character classes\<close>

definition WHITESPACE :: "pystr list" where
  "WHITESPACE = [[SPACE], [TAB], [CR], [LF]]"

definition PUNCTUATION :: "pystr list" where
  "PUNCTUATION = map ustr [''.'', '','', '':'', '';'', ''?'', ''!'']"

definition VOWELS :: "pystr list" where
  "VOWELS = map ustr [''a'', ''A'', ''e'', ''E'', ''i'', ''I'', ''o'', ''O'', ''u'', ''U'']"

text \<open>
  \<open>_gen_char_list\<close>: every one-character string from \<open>' '\<close> up to \<open>'~'\<close>, then the
  members of WHITESPACE not yet present.
\<close>

function gen_printable :: "nat \<Rightarrow> pystr list \<Rightarrow> pystr list" where
  "gen_printable c acc = (if c \<le> 126 then gen_printable (c + 1) (acc @ [[c]]) else acc)"
  by pat_completeness auto

termination
  by (relation "measure (\<lambda>(c, acc). 127 - c)") auto

declare gen_printable.simps [simp del]

fun add_missing :: "pystr list \<Rightarrow> pystr list \<Rightarrow> pystr list" where
  "add_missing [] acc = acc"
| "add_missing (c # cs) acc = add_missing cs (if c \<notin> set acc then acc @ [c] else acc)"

definition private_gen_char_list :: "pystr list \<Rightarrow> pystr list" where
  "private_gen_char_list acc = add_missing WHITESPACE (gen_printable SPACE acc)"

text \<open>\<open>self.valid_characters\<close>: empty in \<open>__init__\<close>, filled there once by \<open>_gen_char_list\<close>.\<close>

definition valid_characters :: "pystr list" where
  "valid_characters = private_gen_char_list []"

section \<open>The detector\<close>

text \<open>
  The local variables of \<open>Detect\<close>, and what one pass of its loop takes from outside:
  the clock as read at line 210 (used only when a window starts), the result of
  \<open>serial.read(1)\<close>, the clock as read at line 231, and whether \<open>ctlc\<close> has been set
  from outside by the time line 249 tests it. Clock readings are real numbers.
\<close>

record detect_vars =
  count :: int
  whitespace :: int
  punctuation :: int
  vowels :: int
  start_time :: real
  timed_out :: bool
  clear_counters :: bool

record read_event =
  ev_clock_start :: real
  ev_byte :: pyobj
  ev_clock_check :: real
  ev_ctlc :: bool

datatype loop_exit = Confirmed | Cancelled

definition vars0 :: detect_vars where
  "vars0 = \<lparr>count = 0, whitespace = 0, punctuation = 0, vowels = 0, start_time = 0,
            timed_out = False, clear_counters = False\<rparr>"

text \<open>Lines 204 to 206.\<close>

definition detect_start :: "baudrate \<Rightarrow> baudrate" where
  "detect_start s = (if \<not> auto_detect s then s\<lparr>thread := Some HandleKeypress_thread\<rparr> else s)"

text \<open>Lines 215 to 225: the classification of a byte that was read.\<close>

definition classify :: "baudrate \<Rightarrow> pyobj \<Rightarrow> detect_vars \<Rightarrow> detect_vars" where
  "classify s byte v =
     (if auto_detect s \<and> py_in byte valid_characters then
        (let v1 = (if py_in byte WHITESPACE then v\<lparr>whitespace := whitespace v + 1\<rparr>
                   else if py_in byte PUNCTUATION then v\<lparr>punctuation := punctuation v + 1\<rparr>
                   else if py_in byte VOWELS then v\<lparr>vowels := vowels v + 1\<rparr>
                   else v)
         in v1\<lparr>count := count v1 + 1\<rparr>)
      else v\<lparr>clear_counters := True\<rparr>)"

text \<open>
  Lines 209 to 234. The Boolean of the result tells whether the \<open>break\<close> of line 230
  was taken.
\<close>

definition detect_read ::
  "baudrate \<Rightarrow> detect_vars \<Rightarrow> read_event \<Rightarrow> error + (bool \<times> baudrate \<times> detect_vars)" where
  "detect_read s v e =
     (let v0 = (if start_time v = 0 then v\<lparr>start_time := ev_clock_start e\<rparr> else v);
          byte = ev_byte e
      in if py_truthy byte then
           (let v1 = classify s byte v0
            in case private_print s byte False of
                 Inl x \<Rightarrow> Inl x
               | Inr s1 \<Rightarrow>
                   if count v1 \<ge> threshold s1 \<and> whitespace v1 > 0 \<and> punctuation v1 > 0
                      \<and> vowels v1 > 0
                   then Inr (True, s1, v1)
                   else if ev_clock_check e - start_time v1 \<ge> real_of_int (timeout s1)
                   then Inr (False, s1, v1\<lparr>timed_out := True\<rparr>)
                   else Inr (False, s1, v1))
         else Inr (False, s, v0\<lparr>timed_out := True\<rparr>))"

text \<open>Lines 236 to 247: rotate on a timeout in automatic mode, then clear the counters.\<close>

definition detect_rotate ::
  "baudrate \<Rightarrow> detect_vars \<Rightarrow> error + (baudrate \<times> detect_vars)" where
  "detect_rotate s v =
     (case (if timed_out v \<and> auto_detect s
            then (case NextBaudrate s (- 1) of
                    Inl x \<Rightarrow> Inl x
                  | Inr s1 \<Rightarrow>
                      Inr (s1, v\<lparr>start_time := 0, clear_counters := True, timed_out := False\<rparr>))
            else Inr (s, v)) of
        Inl x \<Rightarrow> Inl x
      | Inr (s1, v1) \<Rightarrow>
          Inr (s1, if clear_counters v1
                   then v1\<lparr>whitespace := 0, punctuation := 0, vowels := 0, count := 0,
                           clear_counters := False\<rparr>
                   else v1))"

text \<open>
  One pass of the loop. \<open>Some r\<close> in the result means that the loop was left, and by
  which \<open>break\<close>; \<open>None\<close> that the next pass follows.
\<close>

definition detect_iter ::
  "baudrate \<Rightarrow> detect_vars \<Rightarrow> read_event
     \<Rightarrow> error + (loop_exit option \<times> baudrate \<times> detect_vars)" where
  "detect_iter s v e =
     (case detect_read s v e of
        Inl x \<Rightarrow> Inl x
      | Inr (brk, s1, v1) \<Rightarrow>
          if brk then Inr (Some Confirmed, s1, v1)
          else (case detect_rotate s1 v1 of
                  Inl x \<Rightarrow> Inl x
                | Inr (s2, v2) \<Rightarrow>
                    (let s3 = s2\<lparr>ctlc := ctlc s2 \<or> ev_ctlc e\<rparr>
                     in if ctlc s3 then Inr (Some Cancelled, s3, v2)
                        else Inr (None, s3, v2))))"

text \<open>
  The loop on a finite supply of events: \<open>None\<close> when the events run out with the loop
  still going.
\<close>

fun detect_loop ::
  "baudrate \<Rightarrow> detect_vars \<Rightarrow> read_event list
     \<Rightarrow> error + (loop_exit option \<times> baudrate \<times> detect_vars)" where
  "detect_loop s v [] = Inr (None, s, v)"
| "detect_loop s v (e # es) =
     (case detect_iter s v e of
        Inl x \<Rightarrow> Inl x
      | Inr (None, s1, v1) \<Rightarrow> detect_loop s1 v1 es
      | Inr (Some r, s1, v1) \<Rightarrow> Inr (Some r, s1, v1))"

text \<open>
  \<open>Detect\<close>: the result is \<open>None\<close> while the loop has not been left, otherwise the way it
  was left, the rate returned and the object. The last \<open>_print\<close> is given a \<open>str\<close>.
\<close>

definition Detect ::
  "baudrate \<Rightarrow> read_event list \<Rightarrow> error + (loop_exit \<times> pystr \<times> baudrate) option" where
  "Detect s evs =
     (case detect_loop (detect_start s) vars0 evs of
        Inl x \<Rightarrow> Inl x
      | Inr (None, s1, v1) \<Rightarrow> Inr None
      | Inr (Some r, s1, v1) \<Rightarrow>
          (case private_print s1 (Str [LF]) True of
             Inl x \<Rightarrow> Inl x
           | Inr s2 \<Rightarrow>
               (case py_getitem BAUDRATES (index s2) of
                  Inl x \<Rightarrow> Inl x
                | Inr rate \<Rightarrow> Inr (Some (r, rate, s2)))))"

section \<open>The keypress interpreter\<close>

definition CONTROL_B :: pystr where "CONTROL_B = [2]"

definition CONTROL_C :: pystr where "CONTROL_C = [3]"

definition INTERPRET_MODE_KEY :: pystr where "INTERPRET_MODE_KEY = CONTROL_B"

definition ESCAPE_KEY :: pystr where "ESCAPE_KEY = [27]"

definition ESCAPE_CODE_COMING :: pystr where "ESCAPE_CODE_COMING = ustr ''[''"

definition INTERPRET_ESC_TIMEOUT_MS :: real where "INTERPRET_ESC_TIMEOUT_MS = 100"

definition UPKEYS :: "pystr list" where "UPKEYS = map ustr [''u'', ''U'', ''A'']"

definition DOWNKEYS :: "pystr list" where "DOWNKEYS = map ustr [''d'', ''D'', ''B'']"

definition HELPKEYS :: "pystr list" where "HELPKEYS = map ustr [''h'', ''?'']"

definition RETURN :: "pystr list" where "RETURN = [[LF], [CR]]"

definition prefix_char :: pystr where
  "prefix_char = [of_char CHR ''A'' + INTERPRET_MODE_KEY ! 0 - 1]"

definition indent :: pystr where
  "indent = replicate 8 SPACE"

definition help_text :: pystr where
  "help_text =
     (let prefix = ustr ''CTRL-'' @ prefix_char
      in ustr ''Keys:'' @ [LF]
         @ indent @ prefix
         @ ustr '' when in key press passthrough mode for this programme to process the following keypresses.''
         @ [LF]
         @ indent @ ustr ''ESC to cancel '' @ prefix @ ustr ''.'' @ [LF]
         @ indent @ [8593] @ ustr '' and '' @ [8595] @ ustr '' arrow keys or '' @ [39]
         @ ustr ''u'' @ [39] @ ustr '' and '' @ [39] @ ustr ''d'' @ [39]
         @ ustr '' to increment/decrement the baudrate.'' @ [LF]
         @ indent @ ustr ''h to display this helpful information.'' @ [LF]
         @ indent @ ustr ''SPACE to toggle between recent baudrates.'' @ [LF]
         @ indent @ ustr ''CTRL-C to break out from this programme.'' @ [LF]
         @ indent)"

definition help_keys :: "baudrate \<Rightarrow> baudrate" where
  "help_keys s =
     (let s1 = (if stderr_needs_capping s then cap_stderr s else s)
      in s1\<lparr>stderr := stderr s1 @ help_text @ [LF]\<rparr>)"

text \<open>
  The local variables of \<open>HandleKeypress\<close>, and what one pass of its loop takes from
  outside: the key returned by \<open>userinput()\<close> (a \<open>str\<close>), the clock as read at line 278
  and the clock as read at line 312.

  The clock readings are doubles, and so are the product and the sum of lines 278 and
  312. A double is a real number, and comparing two doubles compares them as reals;
  each arithmetic operation returns the exact result rounded to a double. The rounding
  is the parameter \<open>fl\<close> of the definitions below, about which nothing is assumed: the
  integers 1000 and 100 are doubles as they stand.
\<close>

record keypress_vars =
  interpret_mode :: bool
  interpret_esc_timeout :: real

record key_event =
  key :: pystr
  key_clock_check :: real
  key_clock_arm :: real

definition keypress_vars0 :: "baudrate \<Rightarrow> keypress_vars" where
  "keypress_vars0 s = \<lparr>interpret_mode = \<not> passthrough_keys s, interpret_esc_timeout = 0\<rparr>"

text \<open>
  Lines 277 to 284. The Boolean tells whether the \<open>continue\<close> of line 283 was taken.
\<close>

definition esc_check ::
  "(real \<Rightarrow> real) \<Rightarrow> keypress_vars \<Rightarrow> key_event \<Rightarrow> bool \<times> keypress_vars" where
  "esc_check fl v e =
     (if interpret_esc_timeout v \<noteq> 0 then
        (if fl (key_clock_check e * 1000) < interpret_esc_timeout v
            \<and> key e = ESCAPE_CODE_COMING
         then (True, v\<lparr>interpret_mode := True, interpret_esc_timeout := 0\<rparr>)
         else (False, v\<lparr>interpret_esc_timeout := 0\<rparr>))
      else (False, v))"

text \<open>
  Lines 286 to 294. The Boolean tells whether the \<open>continue\<close> of line 291 was taken.
\<close>

definition forward_key ::
  "baudrate \<Rightarrow> keypress_vars \<Rightarrow> key_event \<Rightarrow> error + (bool \<times> baudrate \<times> keypress_vars)" where
  "forward_key s v e =
     (if passthrough_keys s \<and> \<not> interpret_mode v then
        (if key e = INTERPRET_MODE_KEY \<and> \<not> interpret_mode v
         then Inr (True, s, v\<lparr>interpret_mode := True\<rparr>)
         else (case utf8_encode (key e) of
                 Inl x \<Rightarrow> Inl x
               | Inr bs \<Rightarrow> Inr (False, s\<lparr>serial_out := serial_out s @ bs\<rparr>, v)))
      else Inr (False, s, v))"

text \<open>Lines 316 and 317, after a command that did not \<open>continue\<close>.\<close>

definition one_shot ::
  "keypress_vars \<Rightarrow> error + baudrate \<Rightarrow> error + (baudrate \<times> keypress_vars)" where
  "one_shot v r =
     (case r of
        Inl x \<Rightarrow> Inl x
      | Inr s \<Rightarrow> Inr (s, if passthrough_keys s then v\<lparr>interpret_mode := False\<rparr> else v))"

text \<open>Lines 296 to 317.\<close>

definition interpret_key ::
  "(real \<Rightarrow> real) \<Rightarrow> baudrate \<Rightarrow> keypress_vars \<Rightarrow> key_event
     \<Rightarrow> error + (baudrate \<times> keypress_vars)" where
  "interpret_key fl s v e =
     (if interpret_mode v then
        (let c = key e
         in if c \<in> set UPKEYS then one_shot v (NextBaudrate s 1)
            else if c \<in> set DOWNKEYS then one_shot v (NextBaudrate s (- 1))
            else if c \<in> set HELPKEYS then one_shot v (Inr (help_keys s))
            else if c = [SPACE] then one_shot v (toggle_baud s)
            else if c \<in> set RETURN then
              one_shot v (Inr (let s1 = (if stderr_needs_capping s then cap_stderr s else s)
                               in s1\<lparr>stderr := stderr s1 @ [LF]\<rparr>))
            else if c = CONTROL_C then one_shot v (Inr (s\<lparr>ctlc := True\<rparr>))
            else if c = ESCAPE_KEY \<and> passthrough_keys s then
              Inr (s, v\<lparr>interpret_esc_timeout :=
                          fl (fl (key_clock_arm e * 1000) + INTERPRET_ESC_TIMEOUT_MS),
                        interpret_mode := False\<rparr>)
            else one_shot v (Inr s))
      else Inr (s, v))"

text \<open>One pass of the loop of \<open>HandleKeypress\<close>, lines 271 to 317.\<close>

definition handle_key ::
  "(real \<Rightarrow> real) \<Rightarrow> baudrate \<Rightarrow> keypress_vars \<Rightarrow> key_event
     \<Rightarrow> error + (baudrate \<times> keypress_vars)" where
  "handle_key fl s v e =
     (case esc_check fl v e of
        (True, v1) \<Rightarrow> Inr (s, v1)
      | (False, v1) \<Rightarrow>
          (case forward_key s v1 e of
             Inl x \<Rightarrow> Inl x
           | Inr (cont, s2, v2) \<Rightarrow> if cont then Inr (s2, v2) else interpret_key fl s2 v2 e))"

text \<open>\<open>while not self.ctlc\<close>, on a finite supply of keys.\<close>

fun handle_loop ::
  "(real \<Rightarrow> real) \<Rightarrow> baudrate \<Rightarrow> keypress_vars \<Rightarrow> key_event list
     \<Rightarrow> error + (baudrate \<times> keypress_vars)" where
  "handle_loop fl s v [] = Inr (s, v)"
| "handle_loop fl s v (e # es) =
     (if ctlc s then Inr (s, v)
      else case handle_key fl s v e of
             Inl x \<Rightarrow> Inl x
           | Inr (s1, v1) \<Rightarrow> handle_loop fl s1 v1 es)"

definition HandleKeypress ::
  "(real \<Rightarrow> real) \<Rightarrow> baudrate \<Rightarrow> key_event list \<Rightarrow> error + (baudrate \<times> keypress_vars)" where
  "HandleKeypress fl s es = handle_loop fl s (keypress_vars0 s) es"

text \<open>The condition of line 229, on the counters it tests.\<close>

definition success :: "baudrate \<Rightarrow> detect_vars \<Rightarrow> bool" where
  "success s v = (threshold s \<le> count v \<and> 0 < whitespace v \<and> 0 < punctuation v \<and> 0 < vowels v)"

section \<open>Concrete inputs\<close>

text \<open>
  Further concrete inputs: the default object in manual mode, with key pass-through, and
  with \<open>x\<close> already on the status line; a read event with a given byte inside the
  timeout window, and one without a byte that finds \<open>ctlc\<close> set; counters one vowel short
  of confirming; interpreter variables with the escape deadline armed for 5100 ms, and
  for a later instant; a rounding that moves one value and leaves the others; a key
  pressed at a given time.
\<close>

definition state_manual :: baudrate where
  "state_manual = state0\<lparr>auto_detect := False\<rparr>"

definition ev_of :: "pyobj \<Rightarrow> read_event" where
  "ev_of b = \<lparr>ev_clock_start = 100, ev_byte = b, ev_clock_check = 101, ev_ctlc = False\<rparr>"

definition vars_mid :: detect_vars where
  "vars_mid = \<lparr>count = 24, whitespace = 1, punctuation = 1, vowels = 0, start_time = 100,
               timed_out = False, clear_counters = False\<rparr>"

definition state_pass :: baudrate where
  "state_pass = state0\<lparr>passthrough_keys := True\<rparr>"

definition vars_armed :: keypress_vars where
  "vars_armed = \<lparr>interpret_mode = False, interpret_esc_timeout = 5100\<rparr>"

definition vars_armed_late :: keypress_vars where
  "vars_armed_late = \<lparr>interpret_mode = False, interpret_esc_timeout = 459215360062029 / 256\<rparr>"

definition round_to :: "real \<Rightarrow> real \<Rightarrow> real \<Rightarrow> real" where
  "round_to x y z = (if z = x then y else z)"

definition key_at :: "pystr \<Rightarrow> real \<Rightarrow> key_event" where
  "key_at c t = \<lparr>key = c, key_clock_check = t, key_clock_arm = t\<rparr>"

definition state_shown :: baudrate where
  "state_shown = state0\<lparr>stderr := [CR] @ ustr ''x'', buffer := ustr ''x''\<rparr>"

definition ev_cancel :: read_event where
  "ev_cancel = \<lparr>ev_clock_start = 100, ev_byte = Bytes [], ev_clock_check = 101, ev_ctlc = True\<rparr>"

section \<open>Facts about the ladder\<close>

lemma length_BAUDRATES: "length BAUDRATES = 23"
  by (simp add: BAUDRATES_def)

lemma py_getitem_valid:
  "valid_index i \<Longrightarrow> py_getitem BAUDRATES i = Inr (BAUDRATES ! nat i)"
  by (simp add: py_getitem_def valid_index_def)

lemma py_getitem_member:
  "valid_index i \<Longrightarrow> \<exists>r. py_getitem BAUDRATES i = Inr r \<and> r \<in> set BAUDRATES"
  by (auto simp: py_getitem_def valid_index_def nat_less_iff intro!: nth_mem)

lemma py_index_range:
  "py_index xs x = Inr i \<Longrightarrow> 0 \<le> i \<and> i < int (length xs)"
  by (induction xs arbitrary: i) (auto split: if_splits sum.splits)

lemma init_default: "init 25 5 True True False False DEFAULT_BAUDRATE = Inr state0"
  by (simp add: init_def BAUDRATES_def DEFAULT_BAUDRATE_def ustr_def state0_def)

lemma set_baud_index:
  assumes "valid_index (case idx of None \<Rightarrow> index s | Some i \<Rightarrow> if i \<noteq> 0 then i else index s)"
  shows "\<exists>s'. set_baud_from_index s idx = Inr s'
           \<and> index s' = (case idx of None \<Rightarrow> index s | Some i \<Rightarrow> if i \<noteq> 0 then i else index s)
           \<and> toggle_bauds s' = toggle_bauds s"
  using assms by (auto simp: set_baud_from_index_def Let_def py_getitem_valid split: option.splits)

lemma NextBaudrate_index:
  "\<exists>s'. NextBaudrate s d = Inr s'
      \<and> index s' = (if index s - d \<ge> int (length BAUDRATES) then 0
                     else if index s - d < 0 then int (length BAUDRATES) - 1 else index s - d)
      \<and> toggle_bauds s' = toggle_bauds s"
proof -
  let ?i = "if index s - d \<ge> int (length BAUDRATES) then 0
            else if index s - d < 0 then int (length BAUDRATES) - 1 else index s - d"
  have v: "valid_index ?i" by (simp add: valid_index_def length_BAUDRATES)
  have "\<exists>s'. set_baud_from_index (s\<lparr>index := ?i\<rparr>) None = Inr s'
           \<and> index s' = ?i \<and> toggle_bauds s' = toggle_bauds (s\<lparr>index := ?i\<rparr>)"
    using set_baud_index [where idx=None and s="s\<lparr>index := ?i\<rparr>"] v by simp
  then show ?thesis by (simp add: NextBaudrate_def Let_def)
qed

lemma toggle_baud_result:
  assumes "valid_index (index s)" and "valid_index (snd (toggle_bauds s))"
  shows "\<exists>s'. toggle_baud s = Inr s'
           \<and> index s' = (if snd (toggle_bauds s) \<noteq> 0 then snd (toggle_bauds s) else index s)
           \<and> toggle_bauds s' = (snd (toggle_bauds s),
                 if index s \<noteq> snd (toggle_bauds s) then index s else fst (toggle_bauds s))"
proof (cases "index s = snd (toggle_bauds s)")
  case True
  then show ?thesis by (simp add: toggle_baud_def Let_def)
next
  case False
  have "valid_index (case Some (snd (toggle_bauds s)) of None \<Rightarrow> index s
                       | Some i \<Rightarrow> if i \<noteq> 0 then i else index s)"
    using assms by simp
  from set_baud_index [OF this] obtain s' where
    "set_baud_from_index s (Some (snd (toggle_bauds s))) = Inr s'"
    "index s' = (if snd (toggle_bauds s) \<noteq> 0 then snd (toggle_bauds s) else index s)"
    by auto
  with False show ?thesis by (simp add: toggle_baud_def Let_def)
qed

lemma apply_op_ok:
  assumes "ladder_ok s" and "valid_op x"
  shows "\<exists>s'. apply_op s x = Inr s' \<and> ladder_ok s'"
proof (cases x)
  case (Step d)
  from NextBaudrate_index [of s d] obtain s' where
    h: "NextBaudrate s d = Inr s'"
       "index s' = (if index s - d \<ge> int (length BAUDRATES) then 0
                     else if index s - d < 0 then int (length BAUDRATES) - 1 else index s - d)"
       "toggle_bauds s' = toggle_bauds s" by blast
  have "valid_index (index s')" unfolding h(2) by (simp add: valid_index_def length_BAUDRATES)
  with h assms Step show ?thesis by (simp add: ladder_ok_def)
next
  case (SetIndex i)
  have v: "valid_index (case i of None \<Rightarrow> index s | Some j \<Rightarrow> if j \<noteq> 0 then j else index s)"
    using assms SetIndex by (auto simp: ladder_ok_def valid_index_def split: option.splits)
  from set_baud_index [OF v] v assms SetIndex show ?thesis
    by (auto simp: ladder_ok_def)
next
  case Toggle
  from assms have "valid_index (index s)" "valid_index (snd (toggle_bauds s))"
    by (simp_all add: ladder_ok_def)
  from toggle_baud_result [OF this] assms Toggle show ?thesis
    by (auto simp: ladder_ok_def)
qed

lemma run_ops_ok:
  "ladder_ok s \<Longrightarrow> \<forall>x \<in> set ops. valid_op x \<Longrightarrow> \<exists>s'. run_ops s ops = Inr s' \<and> ladder_ok s'"
proof (induction ops arbitrary: s)
  case Nil
  then show ?case by simp
next
  case (Cons x xs)
  from apply_op_ok [of s x] Cons.prems obtain s1 where
    "apply_op s x = Inr s1" "ladder_ok s1" by auto
  with Cons.IH [of s1] Cons.prems show ?case by simp
qed

lemma init_ok: "init thr tmo au vb anl pk tb = Inr s \<Longrightarrow> ladder_ok s"
  by (auto simp: init_def ladder_ok_def valid_index_def split: sum.splits dest: py_index_range)

lemma init_T: "init 25 5 True True False False (ustr ''76800'') = Inr state_T"
  by (simp add: init_def BAUDRATES_def DEFAULT_BAUDRATE_def ustr_def state0_def state_T_def)

section \<open>Facts about the display buffer\<close>

lemma decode_newline: "utf8_decode [0x0A] = Some [LF]"
  by (simp add: utf8_decode.simps utf8_first_def)

lemma decode_a_nl_b: "utf8_decode [0x61, 0x0A, 0x62] = Some [97, LF, 98]"
  by (simp add: utf8_decode.simps utf8_first_def)

lemma decode_ff: "utf8_decode [0xFF] = None"
  by (simp add: utf8_decode.simps utf8_first_def)

lemma length_newline_sub: "length newline_sub = 82"
  by (simp add: newline_sub_def max_display_chars_def)

lemma print_flush_fields:
  "threshold (print_flush r s) = threshold s \<and> timeout (print_flush r s) = timeout s
   \<and> auto_detect (print_flush r s) = auto_detect s \<and> index (print_flush r s) = index s
   \<and> toggle_bauds (print_flush r s) = toggle_bauds s \<and> thread (print_flush r s) = thread s
   \<and> ctlc (print_flush r s) = ctlc s \<and> verbose (print_flush r s) = verbose s
   \<and> passthrough_keys (print_flush r s) = passthrough_keys s
   \<and> serial_out (print_flush r s) = serial_out s"
  by (simp add: print_flush_def Let_def cap_stderr_def)

lemma private_print_total: "\<exists>s'. private_print s data anl = Inr s'"
  by (simp add: private_print_def split: sum.splits)

lemma private_print_fields:
  assumes "private_print s data anl = Inr s'"
  shows "threshold s' = threshold s \<and> timeout s' = timeout s
   \<and> auto_detect s' = auto_detect s \<and> index s' = index s
   \<and> toggle_bauds s' = toggle_bauds s \<and> thread s' = thread s
   \<and> ctlc s' = ctlc s \<and> verbose s' = verbose s
   \<and> passthrough_keys s' = passthrough_keys s
   \<and> serial_out s' = serial_out s"
  using assms
  by (auto simp: private_print_def print_try_def Let_def print_flush_fields
      split: if_splits sum.splits)

section \<open>Facts about the detector\<close>

lemma gen_printable_eq:
  "c \<le> 127 \<Longrightarrow> gen_printable c acc = acc @ map (\<lambda>k. [k]) [c..<127]"
proof (induction c acc rule: gen_printable.induct)
  case (1 c acc)
  show ?case
  proof (cases "c \<le> 126")
    case True
    with "1.IH" have "gen_printable (c + 1) (acc @ [[c]]) = (acc @ [[c]]) @ map (\<lambda>k. [k]) [c + 1..<127]"
      by simp
    moreover from True have "[c..<127] = c # [c + 1..<127]"
      by (simp add: upt_conv_Cons)
    ultimately show ?thesis using True by (subst gen_printable.simps) simp
  next
    case False
    with "1.prems" have "c = 127" by simp
    then show ?thesis by (subst gen_printable.simps) simp
  qed
qed

lemma set_valid_characters:
  "set valid_characters = {[c] | c. 32 \<le> c \<and> c \<le> 126} \<union> {[TAB], [CR], [LF]}"
proof -
  have "gen_printable SPACE [] = [] @ map (\<lambda>k. [k]) [SPACE..<127]"
    by (rule gen_printable_eq) simp
  then have "set (gen_printable SPACE []) = (\<lambda>k. [k]) ` {SPACE..<127}"
    by (simp only: set_append set_map set_upt list.set Un_empty_left)
  then have p: "set (gen_printable SPACE []) = {[c] | c. 32 \<le> c \<and> c \<le> 126}"
    by auto
  have a: "set (add_missing ws acc) = set acc \<union> set ws" for ws acc :: "pystr list"
    by (induction ws arbitrary: acc) auto
  show ?thesis
    by (auto simp: valid_characters_def private_gen_char_list_def a p WHITESPACE_def)
qed

lemma py_in_Str: "py_in (Str u) xs = (u \<in> set xs)"
  by (auto simp: py_in_def)

lemma py_in_Bytes: "py_in (Bytes bs) xs = False"
  by (auto simp: py_in_def)

lemma py_in_valid_characters:
  "py_in b valid_characters = (\<exists>c. b = Str [c] \<and> (32 \<le> c \<and> c \<le> 126 \<or> c = TAB \<or> c = CR \<or> c = LF))"
  by (cases b) (auto simp: py_in_Str py_in_Bytes set_valid_characters)

lemma NextBaudrate_fields:
  "\<exists>s'. NextBaudrate s d = Inr s' \<and> threshold s' = threshold s \<and> timeout s' = timeout s
     \<and> auto_detect s' = auto_detect s \<and> thread s' = thread s \<and> ctlc s' = ctlc s
     \<and> verbose s' = verbose s \<and> passthrough_keys s' = passthrough_keys s
     \<and> serial_out s' = serial_out s \<and> toggle_bauds s' = toggle_bauds s
     \<and> valid_index (index s')"
proof -
  let ?i = "if index s - d \<ge> int (length BAUDRATES) then 0
            else if index s - d < 0 then int (length BAUDRATES) - 1 else index s - d"
  have v: "valid_index ?i" by (simp add: valid_index_def length_BAUDRATES)
  then show ?thesis
    by (simp add: NextBaudrate_def set_baud_from_index_def Let_def py_getitem_valid)
qed

lemma classify_start_time:
  "count (classify s b (v\<lparr>start_time := t\<rparr>)) = count (classify s b v)
   \<and> whitespace (classify s b (v\<lparr>start_time := t\<rparr>)) = whitespace (classify s b v)
   \<and> punctuation (classify s b (v\<lparr>start_time := t\<rparr>)) = punctuation (classify s b v)
   \<and> vowels (classify s b (v\<lparr>start_time := t\<rparr>)) = vowels (classify s b v)
   \<and> clear_counters (classify s b (v\<lparr>start_time := t\<rparr>)) = clear_counters (classify s b v)"
  by (simp add: classify_def Let_def)

text \<open>What lines 209 to 234 return, with the window opened if it was not.\<close>

lemma detect_read_cases:
  "\<exists>s1 v1. detect_read s v e = Inr (py_truthy (ev_byte e) \<and> success s (classify s (ev_byte e) v), s1, v1)
     \<and> threshold s1 = threshold s \<and> auto_detect s1 = auto_detect s \<and> thread s1 = thread s
     \<and> index s1 = index s \<and> ctlc s1 = ctlc s
     \<and> (if py_truthy (ev_byte e)
         then count v1 = count (classify s (ev_byte e) v)
            \<and> whitespace v1 = whitespace (classify s (ev_byte e) v)
            \<and> punctuation v1 = punctuation (classify s (ev_byte e) v)
            \<and> vowels v1 = vowels (classify s (ev_byte e) v)
            \<and> clear_counters v1 = clear_counters (classify s (ev_byte e) v)
         else count v1 = count v \<and> whitespace v1 = whitespace v
            \<and> punctuation v1 = punctuation v \<and> vowels v1 = vowels v
            \<and> clear_counters v1 = clear_counters v)"
proof (cases "py_truthy (ev_byte e)")
  case False
  then show ?thesis by (simp add: detect_read_def Let_def)
next
  case True
  obtain s1 where p: "private_print s (ev_byte e) False = Inr s1"
    using private_print_total by blast
  note f = private_print_fields [OF p]
  let ?v0 = "if start_time v = 0 then v\<lparr>start_time := ev_clock_start e\<rparr> else v"
  have c: "count (classify s (ev_byte e) ?v0) = count (classify s (ev_byte e) v)"
     "whitespace (classify s (ev_byte e) ?v0) = whitespace (classify s (ev_byte e) v)"
     "punctuation (classify s (ev_byte e) ?v0) = punctuation (classify s (ev_byte e) v)"
     "vowels (classify s (ev_byte e) ?v0) = vowels (classify s (ev_byte e) v)"
     "clear_counters (classify s (ev_byte e) ?v0) = clear_counters (classify s (ev_byte e) v)"
    by (simp_all add: classify_start_time)
  show ?thesis using True p f c
    by (simp add: detect_read_def Let_def success_def)
qed

lemma detect_rotate_cases:
  "\<exists>s2 v2. detect_rotate s v = Inr (s2, v2)
     \<and> threshold s2 = threshold s \<and> auto_detect s2 = auto_detect s \<and> thread s2 = thread s
     \<and> ctlc s2 = ctlc s
     \<and> (index s2 = index s \<or> valid_index (index s2))
     \<and> (if clear_counters v \<or> (timed_out v \<and> auto_detect s)
         then count v2 = 0 \<and> whitespace v2 = 0 \<and> punctuation v2 = 0 \<and> vowels v2 = 0
         else count v2 = count v \<and> whitespace v2 = whitespace v
            \<and> punctuation v2 = punctuation v \<and> vowels v2 = vowels v)
     \<and> \<not> clear_counters v2"
proof (cases "timed_out v \<and> auto_detect s")
  case True
  from NextBaudrate_fields [of s "- 1"] obtain s' where
    "NextBaudrate s (- 1) = Inr s'" "threshold s' = threshold s" "auto_detect s' = auto_detect s"
    "thread s' = thread s" "ctlc s' = ctlc s" "valid_index (index s')" by blast
  with True show ?thesis by (simp add: detect_rotate_def)
next
  case False
  then show ?thesis by (auto simp: detect_rotate_def)
qed

lemma detect_iter_total: "\<exists>x s' v'. detect_iter s v e = Inr (x, s', v')"
proof -
  from detect_read_cases [of s v e] obtain b s1 v1 where r: "detect_read s v e = Inr (b, s1, v1)"
    by blast
  from detect_rotate_cases [of s1 v1] obtain s2 v2 where "detect_rotate s1 v1 = Inr (s2, v2)"
    by blast
  with r show ?thesis by (simp add: detect_iter_def Let_def)
qed

lemma detect_iter_step:
  assumes "detect_iter s v e = Inr (x, s', v')"
  shows "threshold s' = threshold s \<and> auto_detect s' = auto_detect s \<and> thread s' = thread s"
    and "(x = Some Confirmed) = (py_truthy (ev_byte e) \<and> success s (classify s (ev_byte e) v))"
    and "valid_index (index s) \<Longrightarrow> valid_index (index s')"
    and "x \<noteq> Some Confirmed \<Longrightarrow>
           (count v' = 0 \<and> whitespace v' = 0 \<and> punctuation v' = 0 \<and> vowels v' = 0)
         \<or> (py_truthy (ev_byte e) \<and> \<not> clear_counters (classify s (ev_byte e) v)
            \<and> count v' = count (classify s (ev_byte e) v)
            \<and> whitespace v' = whitespace (classify s (ev_byte e) v)
            \<and> punctuation v' = punctuation (classify s (ev_byte e) v)
            \<and> vowels v' = vowels (classify s (ev_byte e) v))
         \<or> (\<not> py_truthy (ev_byte e) \<and> \<not> clear_counters v
            \<and> count v' = count v \<and> whitespace v' = whitespace v
            \<and> punctuation v' = punctuation v \<and> vowels v' = vowels v)"
proof -
  let ?brk = "py_truthy (ev_byte e) \<and> success s (classify s (ev_byte e) v)"
  from detect_read_cases [of s v e] obtain s1 v1 where
    r: "detect_read s v e = Inr (?brk, s1, v1)"
    and f1: "threshold s1 = threshold s" "auto_detect s1 = auto_detect s" "thread s1 = thread s"
       "index s1 = index s"
    and c1: "if py_truthy (ev_byte e)
         then count v1 = count (classify s (ev_byte e) v)
            \<and> whitespace v1 = whitespace (classify s (ev_byte e) v)
            \<and> punctuation v1 = punctuation (classify s (ev_byte e) v)
            \<and> vowels v1 = vowels (classify s (ev_byte e) v)
            \<and> clear_counters v1 = clear_counters (classify s (ev_byte e) v)
         else count v1 = count v \<and> whitespace v1 = whitespace v
            \<and> punctuation v1 = punctuation v \<and> vowels v1 = vowels v
            \<and> clear_counters v1 = clear_counters v"
    by blast
  from detect_rotate_cases [of s1 v1] obtain s2 v2 where
    t: "detect_rotate s1 v1 = Inr (s2, v2)"
    and f2: "threshold s2 = threshold s1" "auto_detect s2 = auto_detect s1" "thread s2 = thread s1"
       "index s2 = index s1 \<or> valid_index (index s2)"
    and c2: "if clear_counters v1 \<or> (timed_out v1 \<and> auto_detect s1)
         then count v2 = 0 \<and> whitespace v2 = 0 \<and> punctuation v2 = 0 \<and> vowels v2 = 0
         else count v2 = count v1 \<and> whitespace v2 = whitespace v1
            \<and> punctuation v2 = punctuation v1 \<and> vowels v2 = vowels v1"
    by blast
  show "(x = Some Confirmed) = ?brk"
    using assms r t by (auto simp: detect_iter_def Let_def split: if_splits)
  show "threshold s' = threshold s \<and> auto_detect s' = auto_detect s \<and> thread s' = thread s"
    using assms r t f1 f2 by (auto simp: detect_iter_def Let_def split: if_splits)
  show "valid_index (index s')" if "valid_index (index s)"
    using that assms r t f1 f2 by (auto simp: detect_iter_def Let_def split: if_splits)
  show "(count v' = 0 \<and> whitespace v' = 0 \<and> punctuation v' = 0 \<and> vowels v' = 0)
         \<or> (py_truthy (ev_byte e) \<and> \<not> clear_counters (classify s (ev_byte e) v)
            \<and> count v' = count (classify s (ev_byte e) v)
            \<and> whitespace v' = whitespace (classify s (ev_byte e) v)
            \<and> punctuation v' = punctuation (classify s (ev_byte e) v)
            \<and> vowels v' = vowels (classify s (ev_byte e) v))
         \<or> (\<not> py_truthy (ev_byte e) \<and> \<not> clear_counters v
            \<and> count v' = count v \<and> whitespace v' = whitespace v
            \<and> punctuation v' = punctuation v \<and> vowels v' = vowels v)"
    if "x \<noteq> Some Confirmed"
  proof -
    from that assms r t have v': "v' = v2" and nb: "\<not> ?brk"
      by (auto simp: detect_iter_def Let_def split: if_splits)
    show ?thesis
    proof (cases "clear_counters v1 \<or> (timed_out v1 \<and> auto_detect s1)")
      case True
      with c2 v' show ?thesis by simp
    next
      case False
      with c2 c1 v' show ?thesis by (cases "py_truthy (ev_byte e)") simp_all
    qed
  qed
qed

text \<open>The success condition is false whenever the loop is about to read.\<close>

lemma detect_loop_not_success:
  "detect_loop s v evs = Inr (None, s', v') \<Longrightarrow> \<not> success s v \<Longrightarrow> \<not> success s' v'"
proof (induction evs arbitrary: s v)
  case Nil
  then show ?case by simp
next
  case (Cons e es)
  from detect_iter_total [of s v e] obtain x s1 v1 where
    i: "detect_iter s v e = Inr (x, s1, v1)" by blast
  with Cons.prems(1) have x: "x = None" and l: "detect_loop s1 v1 es = Inr (None, s', v')"
    by (auto split: option.splits)
  from detect_iter_step(1) [OF i] have th: "threshold s1 = threshold s" by simp
  from detect_iter_step(2) [OF i] x
  have nb: "\<not> (py_truthy (ev_byte e) \<and> success s (classify s (ev_byte e) v))" by simp
  from detect_iter_step(4) [OF i] x nb Cons.prems(2) th
  have "\<not> success s1 v1" by (auto simp: success_def)
  from Cons.IH [OF l this] show ?case .
qed

lemma detect_loop_fields:
  "detect_loop s v evs = Inr (x, s', v') \<Longrightarrow>
     thread s' = thread s \<and> auto_detect s' = auto_detect s \<and> threshold s' = threshold s
     \<and> (valid_index (index s) \<longrightarrow> valid_index (index s'))"
proof (induction evs arbitrary: s v)
  case Nil
  then show ?case by simp
next
  case (Cons e es)
  from detect_iter_total [of s v e] obtain y s1 v1 where
    i: "detect_iter s v e = Inr (y, s1, v1)" by blast
  note f = detect_iter_step(1) [OF i] detect_iter_step(3) [OF i]
  show ?case
  proof (cases y)
    case None
    with i Cons.prems have "detect_loop s1 v1 es = Inr (x, s', v')" by simp
    from Cons.IH [OF this] f show ?thesis by simp
  next
    case (Some r)
    with i Cons.prems have "s' = s1" by simp
    with f show ?thesis by simp
  qed
qed

lemma detect_loop_total: "\<exists>x s' v'. detect_loop s v evs = Inr (x, s', v')"
proof (induction evs arbitrary: s v)
  case Nil
  then show ?case by simp
next
  case (Cons e es)
  from detect_iter_total [of s v e] obtain y s1 v1 where
    i: "detect_iter s v e = Inr (y, s1, v1)" by blast
  with Cons.IH [of s1 v1] show ?case by (cases y) auto
qed

text \<open>A stream without whitespace never confirms.\<close>

lemma classify_no_whitespace:
  "\<not> py_in b WHITESPACE \<Longrightarrow> whitespace (classify s b v) = whitespace v"
  by (simp add: classify_def Let_def)

lemma detect_loop_no_whitespace:
  assumes "\<forall>e \<in> set evs. \<not> py_in (ev_byte e) WHITESPACE" and "whitespace v \<le> 0"
  shows "detect_loop s v evs = Inr (x, s', v') \<Longrightarrow> x \<noteq> Some Confirmed"
  using assms
proof (induction evs arbitrary: s v)
  case Nil
  then show ?case by simp
next
  case (Cons e es)
  from detect_iter_total [of s v e] obtain y s1 v1 where
    i: "detect_iter s v e = Inr (y, s1, v1)" by blast
  from Cons.prems have nw: "\<not> py_in (ev_byte e) WHITESPACE" by simp
  then have w: "whitespace (classify s (ev_byte e) v) \<le> 0"
    using Cons.prems(3) by (simp add: classify_no_whitespace)
  then have ns: "\<not> success s (classify s (ev_byte e) v)" by (simp add: success_def)
  with detect_iter_step(2) [OF i] have y: "y \<noteq> Some Confirmed" by simp
  show ?case
  proof (cases y)
    case None
    from detect_iter_step(4) [OF i y] w Cons.prems(3) have "whitespace v1 \<le> 0" by auto
    moreover from None i Cons.prems(1) have "detect_loop s1 v1 es = Inr (x, s', v')" by simp
    ultimately show ?thesis using Cons.IH [of s1 v1] Cons.prems(2) by simp
  next
    case (Some r)
    with i Cons.prems(1) y show ?thesis by simp
  qed
qed

lemma Detect_cases:
  "valid_index (index s) \<Longrightarrow>
     Detect s evs = Inr None
     \<or> (\<exists>r rate s'. Detect s evs = Inr (Some (r, rate, s')) \<and> rate \<in> set BAUDRATES
          \<and> thread s' = thread (detect_start s)
          \<and> (\<exists>s1 v1. detect_loop (detect_start s) vars0 evs = Inr (Some r, s1, v1)))"
proof -
  from detect_loop_total [of "detect_start s" vars0 evs] obtain x s1 v1 where
    l: "detect_loop (detect_start s) vars0 evs = Inr (x, s1, v1)" by blast
  assume "valid_index (index s)"
  then have "valid_index (index (detect_start s))" by (simp add: detect_start_def)
  with detect_loop_fields [OF l] have v: "valid_index (index s1)"
    and t: "thread s1 = thread (detect_start s)" by simp_all
  show ?thesis
  proof (cases x)
    case None
    with l show ?thesis by (simp add: Detect_def)
  next
    case (Some r)
    from private_print_total obtain s2 where p: "private_print s1 (Str [LF]) True = Inr s2"
      by blast
    from private_print_fields [OF p] v t have "valid_index (index s2)"
      "thread s2 = thread (detect_start s)" by simp_all
    with py_getitem_member [of "index s2"] Some l p show ?thesis
      by (auto simp: Detect_def)
  qed
qed

lemma Detect_thread:
  assumes "Detect s evs = Inr (Some (r, rate, s'))"
  shows "thread s' = thread (detect_start s)"
proof -
  from detect_loop_total [of "detect_start s" vars0 evs] obtain x s1 v1 where
    l: "detect_loop (detect_start s) vars0 evs = Inr (x, s1, v1)" by blast
  from private_print_total obtain s2 where p: "private_print s1 (Str [LF]) True = Inr s2"
    by blast
  from assms l p have "s' = s2"
    by (auto simp: Detect_def split: option.splits sum.splits)
  with detect_loop_fields [OF l] private_print_fields [OF p] show ?thesis by simp
qed

text \<open>
  The two branches of line 215, on the test as Python evaluates it: a member adds one to
  \<open>count\<close> and to at most one of the other three counters; after any other byte that was
  read, the pass of the loop does not confirm and ends with all four counters at zero.
\<close>

lemma classify_member:
  assumes "auto_detect s" and "py_in b valid_characters"
  shows "count (classify s b w) = count w + 1
     \<and> (whitespace (classify s b w), punctuation (classify s b w), vowels (classify s b w))
        \<in> {(whitespace w + 1, punctuation w, vowels w), (whitespace w, punctuation w + 1, vowels w),
            (whitespace w, punctuation w, vowels w + 1), (whitespace w, punctuation w, vowels w)}"
  using assms by (simp add: classify_def Let_def)

lemma classify_nonmember:
  "\<not> py_in b valid_characters \<Longrightarrow> classify s b w = w\<lparr>clear_counters := True\<rparr>"
  by (simp add: classify_def)

lemma detect_iter_nonmember:
  assumes "detect_loop s0 vars0 evs = Inr (None, s, v)"
    and "py_truthy (ev_byte e)" and "\<not> py_in (ev_byte e) valid_characters"
  shows "\<exists>x s' v'. detect_iter s v e = Inr (x, s', v') \<and> x \<noteq> Some Confirmed
           \<and> count v' = 0 \<and> whitespace v' = 0 \<and> punctuation v' = 0 \<and> vowels v' = 0"
proof -
  have "\<not> success s0 vars0" by (simp add: success_def vars0_def)
  from detect_loop_not_success [OF assms(1) this] have ns: "\<not> success s v" .
  from detect_iter_total [of s v e] obtain x s' v' where
    i: "detect_iter s v e = Inr (x, s', v')" by blast
  have c: "classify s (ev_byte e) v = v\<lparr>clear_counters := True\<rparr>"
    using assms(3) by (rule classify_nonmember)
  with ns have "\<not> success s (classify s (ev_byte e) v)" by (simp add: success_def)
  with detect_iter_step(2) [OF i] have x: "x \<noteq> Some Confirmed" by simp
  from detect_iter_step(4) [OF i x] assms(2) c
  have "count v' = 0 \<and> whitespace v' = 0 \<and> punctuation v' = 0 \<and> vowels v' = 0" by simp
  with i x show ?thesis by blast
qed

text \<open>
  How the deadline gets armed: in interpreting mode with pass-through enabled, the
  escape key sets it 100 ms after the clock reading, in doubles, and goes back to
  forwarding.
\<close>

lemma escape_arms_deadline:
  assumes "passthrough_keys s" and "interpret_mode v" and "interpret_esc_timeout v = 0"
    and "key e = ESCAPE_KEY"
  shows "handle_key fl s v e
         = Inr (s, v\<lparr>interpret_esc_timeout := fl (fl (key_clock_arm e * 1000) + 100),
                     interpret_mode := False\<rparr>)"
  using assms
  by (simp add: handle_key_def esc_check_def forward_key_def interpret_key_def Let_def
      ESCAPE_KEY_def UPKEYS_def DOWNKEYS_def HELPKEYS_def RETURN_def CONTROL_C_def ustr_def
      INTERPRET_ESC_TIMEOUT_MS_def)

lemma Detect_manual_cancel:
  "Detect state_manual [ev_cancel]
     = Inr (Some (Cancelled, ustr ''115200'',
                  state_manual\<lparr>thread := Some HandleKeypress_thread, ctlc := True\<rparr>))"
proof -
  have i: "detect_iter (detect_start state_manual) vars0 ev_cancel
        = Inr (Some Cancelled, state_manual\<lparr>thread := Some HandleKeypress_thread, ctlc := True\<rparr>,
               vars0\<lparr>start_time := 100, timed_out := True\<rparr>)"
    by (simp add: detect_iter_def detect_read_def detect_rotate_def Let_def ev_cancel_def
        py_truthy_def detect_start_def state_manual_def state0_def vars0_def)
  have p: "private_print (state_manual\<lparr>thread := Some HandleKeypress_thread, ctlc := True\<rparr>)
             (Str [LF]) True
           = Inr (state_manual\<lparr>thread := Some HandleKeypress_thread, ctlc := True\<rparr>)"
    by (simp add: private_print_def print_try_def py_decode_def)
  have g: "py_getitem BAUDRATES (index state_manual) = Inr (ustr ''115200'')"
    by (simp add: py_getitem_def BAUDRATES_def state_manual_def state0_def)
  show ?thesis by (simp add: Detect_def i p g)
qed

section \<open>Claims about the ladder\<close>

text \<open>
  Claim C4, as the code has it. NextBaudrate subtracts \<open>updn\<close> and then repairs one
  overshoot: an index at or past the end becomes 0, a negative one becomes the last
  position. Whenever \<open>index - updn\<close> lies between \<open>-1\<close> and \<open>len(BAUDRATES)\<close>, which
  covers every valid index with the deltas \<open>-1\<close>, \<open>0\<close> and \<open>1\<close> that the program passes,
  the new index is \<open>(index - updn) mod len(BAUDRATES)\<close>.
\<close>

theorem NextBaudrate_wraps_single_step:
  assumes "0 \<le> index s" and "index s < int (length BAUDRATES)"
    and "- 1 \<le> index s - d" and "index s - d \<le> int (length BAUDRATES)"
  shows "\<exists>s'. NextBaudrate s d = Inr s'
           \<and> index s' = (index s - d) mod int (length BAUDRATES)"
proof -
  from NextBaudrate_index [of s d] obtain s' where
    h: "NextBaudrate s d = Inr s'"
       "index s' = (if index s - d \<ge> int (length BAUDRATES) then 0
                     else if index s - d < 0 then int (length BAUDRATES) - 1 else index s - d)"
    by blast
  let ?x = "index s - d"
  have "index s' = ?x mod 23"
  proof -
    consider "?x = -1" | "?x = 23" | "0 \<le> ?x \<and> ?x < 23"
      using assms by (simp add: length_BAUDRATES) linarith
    then show ?thesis
    proof cases
      case 1 then show ?thesis using h(2) by (simp add: length_BAUDRATES)
    next
      case 2 then show ?thesis using h(2) by (simp add: length_BAUDRATES)
    next
      case 3 then show ?thesis using h(2) by (simp add: length_BAUDRATES)
    qed
  qed
  with h(1) show ?thesis by (simp add: length_BAUDRATES)
qed

text \<open>C4 at the last position, stepping by \<open>-1\<close>: the index wraps to 0.\<close>

theorem NextBaudrate_wraps_single_step_witness:
  "\<exists>s'. NextBaudrate (state0\<lparr>index := 22\<rparr>) (- 1) = Inr s' \<and> index s' = 0"
  using NextBaudrate_wraps_single_step [of "state0\<lparr>index := 22\<rparr>" "- 1"]
  by (simp add: length_BAUDRATES)

text \<open>
  C4 as stated fails for a larger delta: from index 22, \<open>NextBaudrate(-3)\<close> lands on 0,
  while \<open>(22 + 3) mod 23\<close> is 2.
\<close>

theorem NextBaudrate_not_modular:
  "map_sum id index (NextBaudrate (state0\<lparr>index := 22\<rparr>) (- 3)) = Inr 0
   \<and> (22 - (- 3)) mod int (length BAUDRATES) = 2"
  by (simp add: NextBaudrate_def set_baud_from_index_def py_getitem_def Let_def
      length_BAUDRATES state0_def)

text \<open>
  Claim C10. From a valid index, \<open>set_baud_from_index(0)\<close> returns with the index
  unchanged, because \<open>0\<close> is false in \<open>index if index else self.index\<close>; every other
  valid argument becomes the new index.
\<close>

theorem set_baud_from_index_zero:
  assumes "0 \<le> index s" and "index s < int (length BAUDRATES)"
  shows "(\<exists>s'. set_baud_from_index s (Some 0) = Inr s' \<and> index s' = index s)
       \<and> (\<forall>i. 0 \<le> i \<and> i < int (length BAUDRATES) \<and> i \<noteq> 0 \<longrightarrow>
             (\<exists>s'. set_baud_from_index s (Some i) = Inr s' \<and> index s' = i))"
proof (intro conjI allI impI)
  have "valid_index (case Some (0::int) of None \<Rightarrow> index s
                       | Some i \<Rightarrow> if i \<noteq> 0 then i else index s)"
    using assms by (simp add: valid_index_def)
  from set_baud_index [OF this]
  show "\<exists>s'. set_baud_from_index s (Some 0) = Inr s' \<and> index s' = index s" by auto
next
  fix i :: int assume i: "0 \<le> i \<and> i < int (length BAUDRATES) \<and> i \<noteq> 0"
  then have "valid_index (case Some i of None \<Rightarrow> index s
                       | Some i \<Rightarrow> if i \<noteq> 0 then i else index s)"
    by (simp add: valid_index_def)
  from set_baud_index [OF this] i
  show "\<exists>s'. set_baud_from_index s (Some i) = Inr s' \<and> index s' = i" by auto
qed

text \<open>C10 on the default object (index 4): argument 0 keeps 4, argument 10 selects 10.\<close>

theorem set_baud_from_index_zero_witness:
  "(\<exists>s'. set_baud_from_index state0 (Some 0) = Inr s' \<and> index s' = 4)
   \<and> (\<exists>s'. set_baud_from_index state0 (Some 10) = Inr s' \<and> index s' = 10)"
proof -
  have b: "0 \<le> index state0" "index state0 < int (length BAUDRATES)"
    by (simp_all add: state0_def length_BAUDRATES)
  from set_baud_from_index_zero [OF b] have
    a: "\<exists>s'. set_baud_from_index state0 (Some 0) = Inr s' \<and> index s' = index state0"
    and c: "\<forall>i. 0 \<le> i \<and> i < int (length BAUDRATES) \<and> i \<noteq> 0 \<longrightarrow>
             (\<exists>s'. set_baud_from_index state0 (Some i) = Inr s' \<and> index s' = i)"
    by blast+
  from c have "\<exists>s'. set_baud_from_index state0 (Some 10) = Inr s' \<and> index s' = 10"
    by (simp add: length_BAUDRATES)
  with a show ?thesis by (simp add: state0_def)
qed

lemma toggles_alternate:
  assumes "index s = a" and "toggle_bauds s = (a, b)"
    and "valid_index a" and "valid_index b" and "a \<noteq> 0" and "b \<noteq> 0"
  shows "\<exists>s'. run_ops s (replicate n Toggle) = Inr s'
           \<and> index s' = (if even n then a else b)
           \<and> toggle_bauds s' = (if even n then (a, b) else (b, a))"
  using assms
proof (induction n arbitrary: s a b)
  case 0
  then show ?case by simp
next
  case (Suc n)
  from Suc.prems have "valid_index (index s)" "valid_index (snd (toggle_bauds s))" by simp_all
  from toggle_baud_result [OF this] Suc.prems obtain s1 where
    s1: "toggle_baud s = Inr s1" "index s1 = b" "toggle_bauds s1 = (b, a)"
    by auto
  from Suc.IH [OF s1(2) s1(3) Suc.prems(4) Suc.prems(3) Suc.prems(6) Suc.prems(5)]
  obtain s' where "run_ops s1 (replicate n Toggle) = Inr s'"
    "index s' = (if even n then b else a)"
    "toggle_bauds s' = (if even n then (b, a) else (a, b))" by blast
  with s1(1) show ?case by simp
qed

text \<open>
  Claim C5, as the code has it. When the current index is the first slot of the toggle
  pair and neither slot is index 0, \<open>n\<close> calls of \<open>toggle_baud\<close> leave the index on the
  first slot for even \<open>n\<close> and on the second for odd \<open>n\<close>, the pair swapping with it: two
  calls restore both index and pair, and every call moves to the other slot.
\<close>

theorem toggle_alternates_from_first_slot:
  assumes "index s = fst (toggle_bauds s)"
    and "0 < fst (toggle_bauds s)" and "fst (toggle_bauds s) < int (length BAUDRATES)"
    and "0 < snd (toggle_bauds s)" and "snd (toggle_bauds s) < int (length BAUDRATES)"
  shows "\<exists>s'. run_ops s (replicate n Toggle) = Inr s'
           \<and> index s' = (if even n then fst (toggle_bauds s) else snd (toggle_bauds s))
           \<and> toggle_bauds s' = (if even n then toggle_bauds s
                                 else (snd (toggle_bauds s), fst (toggle_bauds s)))"
proof -
  obtain a b where ab: "toggle_bauds s = (a, b)" by (cases "toggle_bauds s")
  with assms have "index s = a" "valid_index a" "valid_index b" "a \<noteq> 0" "b \<noteq> 0"
    by (simp_all add: valid_index_def)
  from toggles_alternate [OF this(1) ab this(2-5), of n] ab show ?thesis
    by (cases "even n") auto
qed

text \<open>C5 with index 4 and pair \<open>(4, 10)\<close>: two toggles come back to index 4.\<close>

theorem toggle_alternates_from_first_slot_witness:
  "\<exists>s'. run_ops (state0\<lparr>toggle_bauds := (4, 10)\<rparr>) [Toggle, Toggle] = Inr s'
       \<and> index s' = 4 \<and> toggle_bauds s' = (4, 10)"
  using toggle_alternates_from_first_slot [of "state0\<lparr>toggle_bauds := (4, 10)\<rparr>" 2]
  by (simp add: state0_def length_BAUDRATES numeral_2_eq_2)

text \<open>
  C5 as stated fails when the index sits on the second slot. With \<open>toggle_baud="76800"\<close>,
  one toggle and one step up reach index 4 with the pair \<open>(5, 4)\<close>; two further toggles
  end on index 5, not 4: the first of them only swaps the pair.
\<close>

theorem toggle_twice_from_second_slot:
  "map_sum id (\<lambda>s. (index s, toggle_bauds s)) (run_ops state_T [Toggle, Step 1]) = Inr (4, (5, 4))
   \<and> map_sum id index (run_ops state_T [Toggle, Step 1, Toggle, Toggle]) = Inr 5"
  by (simp add: toggle_baud_def NextBaudrate_def set_baud_from_index_def py_getitem_def
      Let_def length_BAUDRATES state0_def state_T_def)

text \<open>
  Claim C6. From any object \<open>__init__\<close> builds, after every prefix of every sequence of
  steps (any delta), index assignments (a valid index or \<open>None\<close>) and toggles, no
  exception has been raised, the index is within \<open>[0, len(BAUDRATES))\<close>, the expression
  \<open>BAUDRATES[self.index]\<close> is an entry of the list, and \<open>Detect\<close> run from there on any
  events either is still in its loop or returns an entry of the list.
\<close>

theorem index_always_valid:
  assumes "init thr tmo au vb anl pk tb = Inr s0" and "\<forall>x \<in> set ops. valid_op x"
  shows "\<exists>s. run_ops s0 (take n ops) = Inr s
           \<and> 0 \<le> index s \<and> index s < int (length BAUDRATES)
           \<and> (\<exists>r. py_getitem BAUDRATES (index s) = Inr r \<and> r \<in> set BAUDRATES)
           \<and> (\<forall>evs. Detect s evs = Inr None
                  \<or> (\<exists>r rate s'. Detect s evs = Inr (Some (r, rate, s'))
                        \<and> rate \<in> set BAUDRATES))"
proof -
  have "\<forall>x \<in> set (take n ops). valid_op x"
    using assms(2) by (auto dest: in_set_takeD)
  from run_ops_ok [OF init_ok [OF assms(1)] this] obtain s where
    r: "run_ops s0 (take n ops) = Inr s" and "ladder_ok s" by blast
  then have v: "valid_index (index s)" by (simp add: ladder_ok_def)
  have "Detect s evs = Inr None
         \<or> (\<exists>r rate s'. Detect s evs = Inr (Some (r, rate, s')) \<and> rate \<in> set BAUDRATES)"
    for evs using Detect_cases [OF v, of evs] by blast
  with r v py_getitem_member [of "index s"] show ?thesis
    by (auto simp: valid_index_def)
qed

text \<open>C6 on the default object and a sequence that overshoots, toggles, sets and wraps.\<close>

theorem index_always_valid_witness:
  "\<exists>s. run_ops state0 [Step (- 30), Toggle, SetIndex (Some 22), Step (- 1)] = Inr s
      \<and> 0 \<le> index s \<and> index s < int (length BAUDRATES)
      \<and> (\<exists>r. py_getitem BAUDRATES (index s) = Inr r \<and> r \<in> set BAUDRATES)
      \<and> (\<forall>evs. Detect s evs = Inr None
             \<or> (\<exists>r rate s'. Detect s evs = Inr (Some (r, rate, s'))
                   \<and> rate \<in> set BAUDRATES))"
  using index_always_valid [OF init_default,
      of "[Step (- 30), Toggle, SetIndex (Some 22), Step (- 1)]" 4]
  by (simp add: length_BAUDRATES)

section \<open>Claims about the display buffer\<close>

text \<open>
  Claim C7, as the code has it. With verbose echo on and newlines not allowed, the
  chunk \<open>"\n"\<close> writes nothing: it replaces the pending buffer by the line-clear
  sequence alone (carriage return, 80 blanks, carriage return) and returns. When the
  next chunk decodes and holds no line break, the line-clear is written ahead of its
  text. The chunk \<open>"a\nb"\<close> writes at once: the two capping newlines if they are due, a
  carriage return, the line-clear and exactly \<open>b\<close>.
\<close>

theorem print_newline_deferred:
  assumes "verbose s" and "\<not> allow_newline s"
  shows "private_print s (Bytes [0x0A]) False = Inr (s\<lparr>buffer := newline_sub\<rparr>)
    \<and> set newline_sub = {CR, SPACE}
    \<and> (\<forall>bs u. utf8_decode bs = Some u \<and> LF \<notin> set u \<longrightarrow>
          private_print (s\<lparr>buffer := newline_sub\<rparr>) (Bytes bs) False
          = Inr (s\<lparr>stderr := stderr s @ (if stderr_needs_capping s then [LF, LF] else [])
                              @ [CR] @ newline_sub @ u,
                   stderr_needs_capping := False, buffer := []\<rparr>))
    \<and> private_print s (Bytes [0x61, 0x0A, 0x62]) False
        = Inr (s\<lparr>stderr := stderr s @ (if stderr_needs_capping s then [LF, LF] else [])
                            @ [CR] @ newline_sub @ [98],
                 stderr_needs_capping := False, buffer := []\<rparr>)"
proof (intro conjI allI impI)
  show "private_print s (Bytes [0x0A]) False = Inr (s\<lparr>buffer := newline_sub\<rparr>)"
    using assms by (simp add: private_print_def print_try_def py_decode_def decode_newline)
next
  show "set newline_sub = {CR, SPACE}"
    by (auto simp: newline_sub_def max_display_chars_def)
next
  fix bs u assume h: "utf8_decode bs = Some u \<and> LF \<notin> set u"
  show "private_print (s\<lparr>buffer := newline_sub\<rparr>) (Bytes bs) False
          = Inr (s\<lparr>stderr := stderr s @ (if stderr_needs_capping s then [LF, LF] else [])
                              @ [CR] @ newline_sub @ u,
                   stderr_needs_capping := False, buffer := []\<rparr>)"
    using assms h
    by (cases s)
       (simp add: private_print_def print_try_def py_decode_def print_flush_def Let_def
        cap_stderr_def length_newline_sub max_display_chars_def)
next
  have st: "py_strip [97, LF, 98] = [97, LF, 98]"
    by (simp add: py_strip_def py_isspace_def)
  have sl: "py_slice_from [97, LF, 98] 2 = [98]"
    by (simp add: py_slice_from_def)
  have "print_try s (Bytes [0x61, 0x0A, 0x62]) False
        = Inr (print_flush True (s\<lparr>buffer := newline_sub @ [98]\<rparr>))"
    using assms by (simp add: print_try_def py_decode_def decode_a_nl_b st Let_def sl)
  then show "private_print s (Bytes [0x61, 0x0A, 0x62]) False
        = Inr (s\<lparr>stderr := stderr s @ (if stderr_needs_capping s then [LF, LF] else [])
                            @ [CR] @ newline_sub @ [98],
                 stderr_needs_capping := False, buffer := []\<rparr>)"
    using assms
    by (cases s)
       (simp add: private_print_def print_flush_def Let_def cap_stderr_def
        length_newline_sub max_display_chars_def)
qed

text \<open>C7 on the default object: \<open>"\n"\<close>, then \<open>"b"\<close>; and \<open>"a\nb"\<close> in one chunk.\<close>

theorem print_newline_deferred_witness:
  "private_print state0 (Bytes [0x0A]) False = Inr (state0\<lparr>buffer := newline_sub\<rparr>)
   \<and> private_print (state0\<lparr>buffer := newline_sub\<rparr>) (Bytes [0x62]) False
       = Inr (state0\<lparr>stderr := [CR] @ newline_sub @ ustr ''b''\<rparr>)
   \<and> private_print state0 (Bytes [0x61, 0x0A, 0x62]) False
       = Inr (state0\<lparr>stderr := [CR] @ newline_sub @ ustr ''b''\<rparr>)"
proof -
  have h: "verbose state0" "\<not> allow_newline state0" by (simp_all add: state0_def)
  have d: "utf8_decode [0x62] = Some [98] \<and> LF \<notin> set [98::nat]"
    by (simp add: utf8_decode.simps utf8_first_def)
  have c: "stderr_needs_capping state0 = False" "stderr state0 = []" "buffer state0 = []"
    by (simp_all add: state0_def)
  have r: "state0\<lparr>stderr := x, stderr_needs_capping := False, buffer := []\<rparr> = state0\<lparr>stderr := x\<rparr>"
    for x by (simp add: state0_def)
  from print_newline_deferred [OF h] d
  have "private_print state0 (Bytes [0x0A]) False = Inr (state0\<lparr>buffer := newline_sub\<rparr>)"
    and "private_print (state0\<lparr>buffer := newline_sub\<rparr>) (Bytes [0x62]) False
          = Inr (state0\<lparr>stderr := stderr state0
                   @ (if stderr_needs_capping state0 then [LF, LF] else [])
                   @ [CR] @ newline_sub @ [98],
                 stderr_needs_capping := False, buffer := []\<rparr>)"
    and "private_print state0 (Bytes [0x61, 0x0A, 0x62]) False
          = Inr (state0\<lparr>stderr := stderr state0
                   @ (if stderr_needs_capping state0 then [LF, LF] else [])
                   @ [CR] @ newline_sub @ [98],
                 stderr_needs_capping := False, buffer := []\<rparr>)"
    by blast+
  then show ?thesis by (simp add: c r ustr_def)
qed

text \<open>
  C7 as stated fails for the chunk \<open>"\n"\<close>: with \<open>x\<close> on the status line, the call leaves
  what was written as it is, so no blanks overwrite the \<open>x\<close>; only the pending buffer
  becomes the line-clear.
\<close>

theorem print_newline_writes_nothing:
  "map_sum id stderr (private_print state_shown (Bytes [0x0A]) False) = Inr ([CR] @ ustr ''x'')
   \<and> map_sum id buffer (private_print state_shown (Bytes [0x0A]) False) = Inr newline_sub"
  by (simp add: private_print_def print_try_def py_decode_def decode_newline state_shown_def
      state0_def)

text \<open>
  Claim C9. \<open>_print\<close> returns normally for every chunk, and a chunk that does not decode
  leaves the whole object as it was, pending buffer and capping flag included.
\<close>

theorem private_print_never_raises:
  "(\<exists>s'. private_print s data anl = Inr s')
   \<and> (\<forall>e. py_decode data = Inl e \<longrightarrow> private_print s data anl = Inr s)"
  by (simp add: private_print_def print_try_def split: sum.splits)

text \<open>C9 on the byte \<open>0xFF\<close>, which is not UTF-8.\<close>

theorem private_print_never_raises_witness:
  "py_decode (Bytes [0xFF]) = Inl UnicodeDecodeError
   \<and> private_print state0 (Bytes [0xFF]) False = Inr state0"
proof -
  have d: "py_decode (Bytes [0xFF]) = Inl UnicodeDecodeError"
    by (simp add: py_decode_def decode_ff)
  with private_print_never_raises [of state0 "Bytes [0xFF]" False] show ?thesis by blast
qed

section \<open>Claims about the detector\<close>

text \<open>
  Claim C1, as the code has it. \<open>Detect\<close> starts the thread running HandleKeypress when
  \<open>auto_detect\<close> is false and starts none when it is true; the loop and the final print
  leave \<open>self.thread\<close> alone, so the same holds when \<open>Detect\<close> returns.
\<close>

theorem Detect_thread_only_in_manual_mode:
  "thread (detect_start s) = (if auto_detect s then thread s else Some HandleKeypress_thread)
   \<and> (\<forall>evs r rate s'. Detect s evs = Inr (Some (r, rate, s')) \<longrightarrow>
          thread s' = (if auto_detect s then thread s else Some HandleKeypress_thread))"
  by (auto simp: detect_start_def dest!: Detect_thread)

text \<open>
  C1 on the default object in manual mode: the thread is started, and is there when
  \<open>Detect\<close> returns after a cancellation.
\<close>

theorem Detect_thread_only_in_manual_mode_witness:
  "\<not> auto_detect state_manual
   \<and> thread (detect_start state_manual) = Some HandleKeypress_thread
   \<and> Detect state_manual [ev_cancel]
       = Inr (Some (Cancelled, ustr ''115200'',
                    state_manual\<lparr>thread := Some HandleKeypress_thread, ctlc := True\<rparr>))
   \<and> thread (state_manual\<lparr>thread := Some HandleKeypress_thread, ctlc := True\<rparr>)
       = Some HandleKeypress_thread"
proof -
  have n: "\<not> auto_detect state_manual" by (simp add: state_manual_def)
  from Detect_thread_only_in_manual_mode [of state_manual] n Detect_manual_cancel
  have "thread (detect_start state_manual) = Some HandleKeypress_thread"
    and "thread (state_manual\<lparr>thread := Some HandleKeypress_thread, ctlc := True\<rparr>)
          = Some HandleKeypress_thread"
    by auto
  with n Detect_manual_cancel show ?thesis by blast
qed

text \<open>
  C1 as stated fails: on the default object, which has automatic detection on, lines
  204 to 206 start no thread.
\<close>

theorem Detect_no_thread_in_auto_mode:
  "auto_detect state0 \<and> thread state0 = None \<and> thread (detect_start state0) = None"
  by (simp add: detect_start_def state0_def)

text \<open>
  Claim C2. One pass of the loop leaves by the \<open>break\<close> of line 230 exactly when a byte
  was read and, on the counters as updated for that byte, \<open>count >= threshold\<close> and
  \<open>whitespace > 0\<close> and \<open>punctuation > 0\<close> and \<open>vowels > 0\<close>. And on a stream that
  repeats one printable character which is no vowel, no punctuation and no whitespace,
  as \<open>str\<close> or as \<open>bytes\<close> and of any length, \<open>Detect\<close> never returns by that \<open>break\<close>.
\<close>

theorem confirm_condition:
  "((\<exists>s' v'. detect_iter s v e = Inr (Some Confirmed, s', v')) \<longleftrightarrow>
      (py_truthy (ev_byte e) \<and> threshold s \<le> count (classify s (ev_byte e) v)
       \<and> 0 < whitespace (classify s (ev_byte e) v)
       \<and> 0 < punctuation (classify s (ev_byte e) v)
       \<and> 0 < vowels (classify s (ev_byte e) v)))
   \<and> (32 \<le> c \<and> c \<le> 126 \<and> [c] \<notin> set WHITESPACE \<and> [c] \<notin> set PUNCTUATION \<and> [c] \<notin> set VOWELS
       \<and> (\<forall>d \<in> set evs. ev_byte d = Str [c] \<or> ev_byte d = Bytes [of_nat c])
       \<longrightarrow> \<not> (\<exists>rate s'. Detect s evs = Inr (Some (Confirmed, rate, s'))))"
proof (intro conjI impI)
  from detect_iter_total [of s v e] obtain x s1 v1 where
    i: "detect_iter s v e = Inr (x, s1, v1)" by blast
  from detect_iter_step(2) [OF i] i
  show "(\<exists>s' v'. detect_iter s v e = Inr (Some Confirmed, s', v')) \<longleftrightarrow>
      (py_truthy (ev_byte e) \<and> threshold s \<le> count (classify s (ev_byte e) v)
       \<and> 0 < whitespace (classify s (ev_byte e) v)
       \<and> 0 < punctuation (classify s (ev_byte e) v)
       \<and> 0 < vowels (classify s (ev_byte e) v))"
    by (auto simp: success_def)
next
  assume h: "32 \<le> c \<and> c \<le> 126 \<and> [c] \<notin> set WHITESPACE \<and> [c] \<notin> set PUNCTUATION
       \<and> [c] \<notin> set VOWELS
       \<and> (\<forall>d \<in> set evs. ev_byte d = Str [c] \<or> ev_byte d = Bytes [of_nat c])"
  then have nw: "\<forall>d \<in> set evs. \<not> py_in (ev_byte d) WHITESPACE"
    by (auto simp: py_in_Str py_in_Bytes)
  show "\<not> (\<exists>rate s'. Detect s evs = Inr (Some (Confirmed, rate, s')))"
  proof
    assume "\<exists>rate s'. Detect s evs = Inr (Some (Confirmed, rate, s'))"
    then obtain rate s' where d: "Detect s evs = Inr (Some (Confirmed, rate, s'))" by blast
    from detect_loop_total [of "detect_start s" vars0 evs] obtain x s1 v1 where
      l: "detect_loop (detect_start s) vars0 evs = Inr (x, s1, v1)" by blast
    have "whitespace vars0 \<le> 0" by (simp add: vars0_def)
    from detect_loop_no_whitespace [OF nw this l] have "x \<noteq> Some Confirmed" .
    with d l show False
      by (auto simp: Detect_def split: option.splits sum.splits)
  qed
qed

text \<open>
  C2 on the default object: with 24 characters counted and a vowel missing, the string
  \<open>a\<close> confirms; forty times the byte \<open>x\<close> does not.
\<close>

theorem confirm_condition_witness:
  "(\<exists>s' v'. detect_iter state0 vars_mid (ev_of (Str (ustr ''a''))) = Inr (Some Confirmed, s', v'))
   \<and> \<not> (\<exists>rate s'. Detect state0 (replicate 40 (ev_of (Bytes [0x78])))
                     = Inr (Some (Confirmed, rate, s')))"
proof -
  have m: "py_in (Str [97]) valid_characters" by (simp add: py_in_valid_characters)
  have "py_truthy (ev_byte (ev_of (Str [97])))
       \<and> threshold state0 \<le> count (classify state0 (ev_byte (ev_of (Str [97]))) vars_mid)
       \<and> 0 < whitespace (classify state0 (ev_byte (ev_of (Str [97]))) vars_mid)
       \<and> 0 < punctuation (classify state0 (ev_byte (ev_of (Str [97]))) vars_mid)
       \<and> 0 < vowels (classify state0 (ev_byte (ev_of (Str [97]))) vars_mid)"
    using m
    by (simp add: ev_of_def py_truthy_def classify_def Let_def state0_def vars_mid_def
        py_in_Str WHITESPACE_def PUNCTUATION_def VOWELS_def ustr_def)
  with confirm_condition [of state0 vars_mid "ev_of (Str [97])" 120 "[]"]
  have a: "\<exists>s' v'. detect_iter state0 vars_mid (ev_of (Str [97])) = Inr (Some Confirmed, s', v')"
    by blast
  have "32 \<le> (120::nat) \<and> (120::nat) \<le> 126 \<and> [120] \<notin> set WHITESPACE
       \<and> [120] \<notin> set PUNCTUATION \<and> [120] \<notin> set VOWELS
       \<and> (\<forall>d \<in> set (replicate 40 (ev_of (Bytes [0x78]))).
             ev_byte d = Str [120] \<or> ev_byte d = Bytes [of_nat 120])"
    by (simp add: WHITESPACE_def PUNCTUATION_def VOWELS_def ustr_def ev_of_def)
  with confirm_condition [of state0 vars_mid "ev_of (Str [97])" 120
      "replicate 40 (ev_of (Bytes [0x78]))"]
  have b: "\<not> (\<exists>rate s'. Detect state0 (replicate 40 (ev_of (Bytes [0x78])))
                     = Inr (Some (Confirmed, rate, s')))"
    by blast
  from a b show ?thesis by (simp add: ustr_def)
qed

text \<open>
  Claim C3, where the code departs from it. What \<open>serial.read(1)\<close> returns is a \<open>bytes\<close>
  object (\<open>_print\<close> decodes it), and \<open>valid_characters\<close> holds strings, so the test of
  line 215 is false for every byte read. In automatic mode, with 24 characters counted,
  the byte \<open>b'a'\<close> is echoed as \<open>a\<close> and then clears all four counters instead of
  adding to \<open>count\<close> and \<open>vowels\<close>. The lemmas \<open>detect_iter_nonmember\<close> and
  \<open>classify_member\<close> state what the loop does in terms of the test of line 215.
\<close>

theorem printable_bytes_not_counted:
  "auto_detect state0
   \<and> py_decode (Bytes [0x61]) = Inr (ustr ''a'')
   \<and> \<not> py_in (Bytes [0x61]) valid_characters
   \<and> detect_iter state0 vars_mid (ev_of (Bytes [0x61]))
       = Inr (None, state0\<lparr>buffer := ustr ''a'', stderr := [CR] @ ustr ''a''\<rparr>,
              vars_mid\<lparr>count := 0, whitespace := 0, punctuation := 0, vowels := 0\<rparr>)"
proof -
  have d: "utf8_decode [0x61] = Some [97]" by (simp add: utf8_decode.simps utf8_first_def)
  have p: "private_print state0 (Bytes [0x61]) False
           = Inr (state0\<lparr>buffer := [97], stderr := [CR, 97]\<rparr>)"
    by (simp add: private_print_def print_try_def py_decode_def d print_flush_def Let_def
        state0_def max_display_chars_def)
  have "detect_iter state0 vars_mid (ev_of (Bytes [0x61]))
       = Inr (None, state0\<lparr>buffer := [97], stderr := [CR, 97]\<rparr>,
              vars_mid\<lparr>count := 0, whitespace := 0, punctuation := 0, vowels := 0\<rparr>)"
    by (simp add: detect_iter_def detect_read_def detect_rotate_def Let_def ev_of_def
        py_truthy_def classify_def py_in_Bytes p vars_mid_def)
       (simp add: state0_def)
  then show ?thesis
    by (simp add: py_in_Bytes py_decode_def d ustr_def) (simp add: state0_def)
qed

section \<open>Claims about the keypress interpreter\<close>

text \<open>
  Claim C8. In pass-through mode (\<open>passthrough_keys\<close> set, \<open>interpret_mode\<close> false) with
  the escape deadline armed: the key \<open>[\<close> before the deadline switches to interpreting
  mode, clears the deadline and leaves the object, the transport included, untouched.
  Any other key, or any key at or after the deadline, is handled exactly as if no
  deadline had been armed, and the deadline is cleared: the mode-switch key is
  consumed and switches to interpreting mode, every other key is encoded and written
  to the transport with the mode unchanged. Before the deadline means what line 279
  tests: the clock reading times 1000, rounded to a double, is below the deadline. This
  holds whatever the rounding \<open>fl\<close> is.
\<close>

theorem escape_disambiguation:
  assumes "passthrough_keys s" and "\<not> interpret_mode v" and "interpret_esc_timeout v \<noteq> 0"
  shows "(key e = ESCAPE_CODE_COMING \<and> fl (key_clock_check e * 1000) < interpret_esc_timeout v \<longrightarrow>
            handle_key fl s v e = Inr (s, v\<lparr>interpret_mode := True, interpret_esc_timeout := 0\<rparr>))
       \<and> (\<not> (key e = ESCAPE_CODE_COMING \<and> fl (key_clock_check e * 1000) < interpret_esc_timeout v) \<longrightarrow>
            handle_key fl s v e = handle_key fl s (v\<lparr>interpret_esc_timeout := 0\<rparr>) e
            \<and> handle_key fl s v e =
                (if key e = INTERPRET_MODE_KEY
                 then Inr (s, v\<lparr>interpret_mode := True, interpret_esc_timeout := 0\<rparr>)
                 else case utf8_encode (key e) of
                        Inl x \<Rightarrow> Inl x
                      | Inr bs \<Rightarrow> Inr (s\<lparr>serial_out := serial_out s @ bs\<rparr>,
                                      v\<lparr>interpret_esc_timeout := 0\<rparr>)))"
proof (intro conjI impI)
  assume "key e = ESCAPE_CODE_COMING \<and> fl (key_clock_check e * 1000) < interpret_esc_timeout v"
  with assms show "handle_key fl s v e = Inr (s, v\<lparr>interpret_mode := True, interpret_esc_timeout := 0\<rparr>)"
    by (simp add: handle_key_def esc_check_def)
next
  assume n: "\<not> (key e = ESCAPE_CODE_COMING \<and> fl (key_clock_check e * 1000) < interpret_esc_timeout v)"
  with assms have c: "esc_check fl v e = (False, v\<lparr>interpret_esc_timeout := 0\<rparr>)"
    by (auto simp: esc_check_def)
  have c0: "esc_check fl (v\<lparr>interpret_esc_timeout := 0\<rparr>) e = (False, v\<lparr>interpret_esc_timeout := 0\<rparr>)"
    by (simp add: esc_check_def)
  from c c0 show "handle_key fl s v e = handle_key fl s (v\<lparr>interpret_esc_timeout := 0\<rparr>) e"
    by (simp add: handle_key_def)
  from c assms show "handle_key fl s v e =
                (if key e = INTERPRET_MODE_KEY
                 then Inr (s, v\<lparr>interpret_mode := True, interpret_esc_timeout := 0\<rparr>)
                 else case utf8_encode (key e) of
                        Inl x \<Rightarrow> Inl x
                      | Inr bs \<Rightarrow> Inr (s\<lparr>serial_out := serial_out s @ bs\<rparr>,
                                      v\<lparr>interpret_esc_timeout := 0\<rparr>))"
    by (simp add: handle_key_def forward_key_def interpret_key_def split: sum.splits)
qed

text \<open>
  C8 with the deadline at 5100 ms and products that are doubles as they stand: \<open>[\<close> at
  5062.5 ms is consumed, \<open>[\<close> at 5250 ms and \<open>x\<close> at 5062.5 ms are forwarded. And with a
  product that lies below the deadline and is rounded up to it: \<open>[\<close> is forwarded.
\<close>

theorem escape_disambiguation_witness:
  "handle_key (\<lambda>x. x) state_pass vars_armed (key_at (ustr ''['') (81 / 16))
     = Inr (state_pass, \<lparr>interpret_mode = True, interpret_esc_timeout = 0\<rparr>)
   \<and> handle_key (\<lambda>x. x) state_pass vars_armed (key_at (ustr ''['') (21 / 4))
     = Inr (state_pass\<lparr>serial_out := [0x5B]\<rparr>, \<lparr>interpret_mode = False, interpret_esc_timeout = 0\<rparr>)
   \<and> handle_key (\<lambda>x. x) state_pass vars_armed (key_at (ustr ''x'') (81 / 16))
     = Inr (state_pass\<lparr>serial_out := [0x78]\<rparr>, \<lparr>interpret_mode = False, interpret_esc_timeout = 0\<rparr>)
   \<and> handle_key (round_to (7523784459256283 / 4194304 * 1000) (459215360062029 / 256))
        state_pass vars_armed_late (key_at (ustr ''['') (7523784459256283 / 4194304))
     = Inr (state_pass\<lparr>serial_out := [0x5B]\<rparr>, \<lparr>interpret_mode = False, interpret_esc_timeout = 0\<rparr>)"
proof -
  have h: "passthrough_keys state_pass" "\<not> interpret_mode vars_armed"
    "interpret_esc_timeout vars_armed \<noteq> 0"
    by (simp_all add: state_pass_def vars_armed_def)
  have hl: "\<not> interpret_mode vars_armed_late" "interpret_esc_timeout vars_armed_late \<noteq> 0"
    by (simp_all add: vars_armed_late_def)
  have so: "serial_out state_pass = []"
    by (simp add: state_pass_def state0_def)
  let ?e1 = "key_at (ustr ''['') (81 / 16)"
  let ?e2 = "key_at (ustr ''['') (21 / 4)"
  let ?e3 = "key_at (ustr ''x'') (81 / 16)"
  let ?e4 = "key_at (ustr ''['') (7523784459256283 / 4194304)"
  let ?fl = "round_to (7523784459256283 / 4194304 * 1000) (459215360062029 / 256)"
  have "key ?e1 = ESCAPE_CODE_COMING
        \<and> (\<lambda>x. x) (key_clock_check ?e1 * 1000) < interpret_esc_timeout vars_armed"
    by (simp add: key_at_def ESCAPE_CODE_COMING_def vars_armed_def)
  with escape_disambiguation [OF h, of ?e1 "\<lambda>x. x"]
  have "handle_key (\<lambda>x. x) state_pass vars_armed ?e1
        = Inr (state_pass, vars_armed\<lparr>interpret_mode := True, interpret_esc_timeout := 0\<rparr>)"
    by blast
  then have a: "handle_key (\<lambda>x. x) state_pass vars_armed ?e1
        = Inr (state_pass, \<lparr>interpret_mode = True, interpret_esc_timeout = 0\<rparr>)"
    by (simp add: vars_armed_def)
  have "\<not> (key ?e2 = ESCAPE_CODE_COMING
        \<and> (\<lambda>x. x) (key_clock_check ?e2 * 1000) < interpret_esc_timeout vars_armed)"
    by (simp add: key_at_def vars_armed_def)
  with escape_disambiguation [OF h, of ?e2 "\<lambda>x. x"]
  have "handle_key (\<lambda>x. x) state_pass vars_armed ?e2 =
          (if key ?e2 = INTERPRET_MODE_KEY
           then Inr (state_pass, vars_armed\<lparr>interpret_mode := True, interpret_esc_timeout := 0\<rparr>)
           else case utf8_encode (key ?e2) of
                  Inl x \<Rightarrow> Inl x
                | Inr bs \<Rightarrow> Inr (state_pass\<lparr>serial_out := serial_out state_pass @ bs\<rparr>,
                                vars_armed\<lparr>interpret_esc_timeout := 0\<rparr>))"
    by blast
  also have "\<dots> = Inr (state_pass\<lparr>serial_out := [0x5B]\<rparr>,
                       \<lparr>interpret_mode = False, interpret_esc_timeout = 0\<rparr>)"
    by (simp add: key_at_def INTERPRET_MODE_KEY_def CONTROL_B_def ustr_def utf8_encode_cp_def
        so vars_armed_def)
  finally have b: "handle_key (\<lambda>x. x) state_pass vars_armed ?e2
        = Inr (state_pass\<lparr>serial_out := [0x5B]\<rparr>,
               \<lparr>interpret_mode = False, interpret_esc_timeout = 0\<rparr>)" .
  have "\<not> (key ?e3 = ESCAPE_CODE_COMING
        \<and> (\<lambda>x. x) (key_clock_check ?e3 * 1000) < interpret_esc_timeout vars_armed)"
    by (simp add: key_at_def ESCAPE_CODE_COMING_def ustr_def)
  with escape_disambiguation [OF h, of ?e3 "\<lambda>x. x"]
  have "handle_key (\<lambda>x. x) state_pass vars_armed ?e3 =
          (if key ?e3 = INTERPRET_MODE_KEY
           then Inr (state_pass, vars_armed\<lparr>interpret_mode := True, interpret_esc_timeout := 0\<rparr>)
           else case utf8_encode (key ?e3) of
                  Inl x \<Rightarrow> Inl x
                | Inr bs \<Rightarrow> Inr (state_pass\<lparr>serial_out := serial_out state_pass @ bs\<rparr>,
                                vars_armed\<lparr>interpret_esc_timeout := 0\<rparr>))"
    by blast
  also have "\<dots> = Inr (state_pass\<lparr>serial_out := [0x78]\<rparr>,
                       \<lparr>interpret_mode = False, interpret_esc_timeout = 0\<rparr>)"
    by (simp add: key_at_def INTERPRET_MODE_KEY_def CONTROL_B_def ustr_def utf8_encode_cp_def
        so vars_armed_def)
  finally have c: "handle_key (\<lambda>x. x) state_pass vars_armed ?e3
        = Inr (state_pass\<lparr>serial_out := [0x78]\<rparr>,
               \<lparr>interpret_mode = False, interpret_esc_timeout = 0\<rparr>)" .
  have "\<not> (key ?e4 = ESCAPE_CODE_COMING
        \<and> ?fl (key_clock_check ?e4 * 1000) < interpret_esc_timeout vars_armed_late)"
    by (simp add: key_at_def vars_armed_late_def round_to_def)
  with escape_disambiguation [OF h(1) hl, of ?e4 ?fl]
  have "handle_key ?fl state_pass vars_armed_late ?e4 =
          (if key ?e4 = INTERPRET_MODE_KEY
           then Inr (state_pass,
                     vars_armed_late\<lparr>interpret_mode := True, interpret_esc_timeout := 0\<rparr>)
           else case utf8_encode (key ?e4) of
                  Inl x \<Rightarrow> Inl x
                | Inr bs \<Rightarrow> Inr (state_pass\<lparr>serial_out := serial_out state_pass @ bs\<rparr>,
                                vars_armed_late\<lparr>interpret_esc_timeout := 0\<rparr>))"
    by blast
  also have "\<dots> = Inr (state_pass\<lparr>serial_out := [0x5B]\<rparr>,
                       \<lparr>interpret_mode = False, interpret_esc_timeout = 0\<rparr>)"
    by (simp add: key_at_def INTERPRET_MODE_KEY_def CONTROL_B_def ustr_def utf8_encode_cp_def
        so vars_armed_late_def)
  finally have d: "handle_key ?fl state_pass vars_armed_late ?e4
        = Inr (state_pass\<lparr>serial_out := [0x5B]\<rparr>,
               \<lparr>interpret_mode = False, interpret_esc_timeout = 0\<rparr>)" .
  from a b c d show ?thesis by blast
qed

end
